theory Spec2Isabelle
  imports Complex_Main "HOL-Library.Sublist"
begin

section \<open>Strings\<close>

text \<open>
  A Python \<open>str\<close> is modelled as a \<open>string\<close> whose characters are the code points
  0..255. On that range \<open>str.isspace\<close>, \<open>str.lower\<close> and \<open>str.strip\<close> are as
  defined below; code points from 256 on are outside the model.
\<close>

definition isspace :: "char \<Rightarrow> bool" where
  "isspace c = ((of_char c :: nat) \<in> {9, 10, 11, 12, 13, 28, 29, 30, 31, 32, 133, 160})"

definition strip :: "string \<Rightarrow> string" where
  "strip s = rev (dropWhile isspace (rev (dropWhile isspace s)))"

definition lower_char :: "char \<Rightarrow> char" where
  "lower_char c =
     (let n = (of_char c :: nat)
      in if (65 \<le> n \<and> n \<le> 90) \<or> (192 \<le> n \<and> n \<le> 222 \<and> n \<noteq> 215)
         then char_of (n + 32) else c)"

definition lower :: "string \<Rightarrow> string" where
  "lower s = map lower_char s"

text \<open>\<open>s.split(sep)\<close> for a one-character separator: never the empty list.\<close>

fun split :: "char \<Rightarrow> string \<Rightarrow> string list" where
  "split sep [] = [[]]"
| "split sep (c # cs) =
     (if c = sep then [] # split sep cs
      else (case split sep cs of
              [] \<Rightarrow> [[c]]
            | p # ps \<Rightarrow> (c # p) # ps))"

section \<open>Numbers\<close>

text \<open>
  A Python number is an unbounded \<open>int\<close> or a \<open>float\<close>. A float is an infinity, NaN
  or a finite double; a finite double is represented by the real number it denotes.
  The range of the doubles is modelled: a conversion or an operation whose result
  reaches \<open>2^1024 - 2^970\<close> in magnitude overflows. The rounding of a result to 53
  significant bits is not modelled (a finite result is kept exact), and neither is
  the sign of zero.
\<close>

datatype pyfloat = Finite real | PosInf | NegInf | NaN

datatype pynum = PyInt int | PyFloat pyfloat

datatype py_exn = ValueError | OverflowError

definition overflow_bound :: int where
  "overflow_bound = 2 ^ 1024 - 2 ^ 970"

text \<open>The float nearest to a real result: infinite from the overflow bound on.\<close>

definition float_of_real :: "real \<Rightarrow> pyfloat" where
  "float_of_real x =
     (if of_int overflow_bound \<le> x then PosInf
      else if x \<le> - of_int overflow_bound then NegInf
      else Finite x)"

text \<open>The conversion of an \<open>int\<close> operand of a float operation; it raises OverflowError.\<close>

definition float_of_int :: "int \<Rightarrow> py_exn + pyfloat" where
  "float_of_int n =
     (if overflow_bound \<le> \<bar>n\<bar> then Inl OverflowError else Inr (Finite (of_int n)))"

fun float_add :: "pyfloat \<Rightarrow> pyfloat \<Rightarrow> pyfloat" where
  "float_add (Finite x) (Finite y) = float_of_real (x + y)"
| "float_add NaN _ = NaN"
| "float_add _ NaN = NaN"
| "float_add PosInf NegInf = NaN"
| "float_add NegInf PosInf = NaN"
| "float_add PosInf _ = PosInf"
| "float_add _ PosInf = PosInf"
| "float_add NegInf _ = NegInf"
| "float_add _ NegInf = NegInf"

fun float_neg :: "pyfloat \<Rightarrow> pyfloat" where
  "float_neg (Finite x) = Finite (- x)"
| "float_neg PosInf = NegInf"
| "float_neg NegInf = PosInf"
| "float_neg NaN = NaN"

definition float_sub :: "pyfloat \<Rightarrow> pyfloat \<Rightarrow> pyfloat" where
  "float_sub a b = float_add a (float_neg b)"

text \<open>\<open>n / 30.0\<close> for an \<open>int\<close> \<open>n\<close>.\<close>

definition int_div_30 :: "int \<Rightarrow> py_exn + pyfloat" where
  "int_div_30 n =
     (case float_of_int n of
        Inl e \<Rightarrow> Inl e
      | Inr (Finite x) \<Rightarrow> Inr (Finite (x / 30))
      | Inr y \<Rightarrow> Inr y)"

text \<open>\<open>n + y\<close> for an \<open>int\<close> \<open>n\<close> and a float \<open>y\<close>.\<close>

definition int_add_float :: "int \<Rightarrow> pyfloat \<Rightarrow> py_exn + pynum" where
  "int_add_float n y =
     (case float_of_int n of
        Inl e \<Rightarrow> Inl e
      | Inr x \<Rightarrow> Inr (PyFloat (float_add x y)))"

text \<open>Comparisons: exact between \<open>int\<close> and float, false whenever NaN takes part.\<close>

fun cmp_val :: "pynum \<Rightarrow> pyfloat" where
  "cmp_val (PyInt n) = Finite (of_int n)"
| "cmp_val (PyFloat y) = y"

fun float_lt :: "pyfloat \<Rightarrow> pyfloat \<Rightarrow> bool" where
  "float_lt (Finite x) (Finite y) = (x < y)"
| "float_lt NaN _ = False"
| "float_lt _ NaN = False"
| "float_lt _ NegInf = False"
| "float_lt PosInf _ = False"
| "float_lt NegInf _ = True"
| "float_lt _ PosInf = True"

fun float_eq :: "pyfloat \<Rightarrow> pyfloat \<Rightarrow> bool" where
  "float_eq (Finite x) (Finite y) = (x = y)"
| "float_eq PosInf PosInf = True"
| "float_eq NegInf NegInf = True"
| "float_eq _ _ = False"

definition num_lt :: "pynum \<Rightarrow> pynum \<Rightarrow> bool" where
  "num_lt a b = float_lt (cmp_val a) (cmp_val b)"

definition num_eq :: "pynum \<Rightarrow> pynum \<Rightarrow> bool" where
  "num_eq a b = float_eq (cmp_val a) (cmp_val b)"

definition num_gt :: "pynum \<Rightarrow> pynum \<Rightarrow> bool" where
  "num_gt a b = num_lt b a"

definition num_ge :: "pynum \<Rightarrow> pynum \<Rightarrow> bool" where
  "num_ge a b = (num_lt b a \<or> num_eq a b)"

text \<open>\<open>a - b\<close>.\<close>

fun num_sub :: "pynum \<Rightarrow> pynum \<Rightarrow> py_exn + pynum" where
  "num_sub (PyInt a) (PyInt b) = Inr (PyInt (a - b))"
| "num_sub (PyInt a) (PyFloat y) =
     (case float_of_int a of Inl e \<Rightarrow> Inl e | Inr x \<Rightarrow> Inr (PyFloat (float_sub x y)))"
| "num_sub (PyFloat x) (PyInt b) =
     (case float_of_int b of Inl e \<Rightarrow> Inl e | Inr y \<Rightarrow> Inr (PyFloat (float_sub x y)))"
| "num_sub (PyFloat x) (PyFloat y) = Inr (PyFloat (float_sub x y))"

section \<open>The literals accepted by \<open>int\<close> and \<open>float\<close>\<close>

definition is_digit :: "char \<Rightarrow> bool" where
  "is_digit c = (48 \<le> (of_char c :: nat) \<and> (of_char c :: nat) \<le> 57)"

definition digit_val :: "char \<Rightarrow> nat" where
  "digit_val c = of_char c - 48"

text \<open>
  \<open>int\<close> and \<open>float\<close> skip, at both ends, the whitespace of the C locale and the
  non-ASCII spaces (which they first turn into blanks); not the separators 28..31.
\<close>

definition num_space :: "char \<Rightarrow> bool" where
  "num_space c = ((of_char c :: nat) \<in> {9, 10, 11, 12, 13, 32, 133, 160})"

definition num_strip :: "string \<Rightarrow> string" where
  "num_strip s = rev (dropWhile num_space (rev (dropWhile num_space s)))"

text \<open>Digits, with single underscores between digits; \<open>after_digit\<close> has read a digit.\<close>

fun after_digit :: "nat \<Rightarrow> string \<Rightarrow> nat option" where
  "after_digit acc [] = Some acc"
| "after_digit acc [c] = (if is_digit c then Some (10 * acc + digit_val c) else None)"
| "after_digit acc (c # d # cs) =
     (if is_digit c then after_digit (10 * acc + digit_val c) (d # cs)
      else if c = CHR ''_'' \<and> is_digit d then after_digit (10 * acc + digit_val d) cs
      else None)"

fun digitpart :: "string \<Rightarrow> nat option" where
  "digitpart [] = None"
| "digitpart (c # cs) = (if is_digit c then after_digit (digit_val c) cs else None)"

text \<open>
  \<open>int(s)\<close> in base 10: \<open>None\<close> is the ValueError. The limit that recent
  interpreters put on the number of digits (4300 unless configured) is not modelled.
\<close>

definition py_int :: "string \<Rightarrow> int option" where
  "py_int s =
     (case num_strip s of
        [] \<Rightarrow> None
      | c # cs \<Rightarrow>
          if c = CHR ''-'' then map_option (\<lambda>n. - int n) (digitpart cs)
          else if c = CHR ''+'' then map_option int (digitpart cs)
          else map_option int (digitpart (c # cs)))"

text \<open>\<open>float(s)\<close>: an underscore needs a digit on each side, and is then dropped.\<close>

fun underscores_ok :: "char \<Rightarrow> string \<Rightarrow> bool" where
  "underscores_ok prev [] = (prev \<noteq> CHR ''_'')"
| "underscores_ok prev (c # cs) =
     ((if c = CHR ''_'' then is_digit prev
       else if prev = CHR ''_'' then is_digit c
       else True)
      \<and> underscores_ok c cs)"

definition digits_val :: "string \<Rightarrow> nat" where
  "digits_val ds = foldl (\<lambda>a c. 10 * a + digit_val c) 0 ds"

definition is_e :: "char \<Rightarrow> bool" where
  "is_e c = (c = CHR ''e'' \<or> c = CHR ''E'')"

text \<open>The exponent after the \<open>e\<close>: an optional sign and at least one digit.\<close>

definition exponent :: "string \<Rightarrow> int option" where
  "exponent s =
     (let (neg, ds) = (case s of
                         [] \<Rightarrow> (False, [])
                       | c # cs \<Rightarrow> if c = CHR ''-'' then (True, cs)
                                  else if c = CHR ''+'' then (False, cs)
                                  else (False, c # cs))
      in if ds \<noteq> [] \<and> list_all is_digit ds
         then Some (if neg then - int (digits_val ds) else int (digits_val ds))
         else None)"

text \<open>An unsigned decimal: digits, an optional point and digits, an optional exponent.\<close>

definition decimal :: "string \<Rightarrow> real option" where
  "decimal s =
     (let mant = takeWhile (\<lambda>c. \<not> is_e c) s;
          rest = dropWhile (\<lambda>c. \<not> is_e c) s;
          ip = takeWhile is_digit mant;
          r = dropWhile is_digit mant;
          fp = (case r of
                  [] \<Rightarrow> Some []
                | c # f \<Rightarrow> if c = CHR ''.'' \<and> list_all is_digit f then Some f else None);
          ex = (case rest of [] \<Rightarrow> Some 0 | _ # e \<Rightarrow> exponent e)
      in case (fp, ex) of
           (Some f, Some e) \<Rightarrow>
             if ip @ f = [] then None
             else (let m = real (digits_val (ip @ f));
                       k = e - int (length f)
                   in Some (if 0 \<le> k then m * 10 ^ nat k else m / 10 ^ nat (- k)))
         | _ \<Rightarrow> None)"

definition py_float :: "string \<Rightarrow> pyfloat option" where
  "py_float s =
     (if underscores_ok (CHR 0x00) s then
        (case num_strip (filter (\<lambda>c. c \<noteq> CHR ''_'') s) of
           [] \<Rightarrow> None
         | c # cs \<Rightarrow>
             (let neg = (c = CHR ''-'');
                  body = (if c = CHR ''-'' \<or> c = CHR ''+'' then cs else c # cs)
              in if lower body = ''inf'' \<or> lower body = ''infinity''
                 then Some (if neg then NegInf else PosInf)
                 else if lower body = ''nan'' then Some NaN
                 else map_option (\<lambda>x. float_of_real (if neg then - x else x))
                        (decimal body)))
      else None)"

section \<open>Timecodes\<close>

text \<open>
  \<open>parse_timecode\<close>. The two handlers catch ValueError and TypeError, so a field that
  is no \<open>int\<close> literal, or a text that is no \<open>float\<close> literal, gives \<open>0\<close>; the
  OverflowError of the float arithmetic of the four-field form is not caught.
\<close>

definition parse_timecode :: "string \<Rightarrow> py_exn + pynum" where
  "parse_timecode time_str0 =
     (let time_str = strip time_str0
      in if CHR '':'' \<in> set time_str then
           (let parts = split (CHR '':'') time_str
            in if length parts = 4 then
                 (case those (map py_int parts) of
                    Some [hours, minutes, seconds, frames] \<Rightarrow>
                      (case int_div_30 frames of
                         Inl e \<Rightarrow> Inl e
                       | Inr q \<Rightarrow> int_add_float (hours * 3600 + minutes * 60 + seconds) q)
                  | _ \<Rightarrow> Inr (PyInt 0))
               else if length parts = 3 then
                 (case those (map py_int parts) of
                    Some [hours, minutes, seconds] \<Rightarrow>
                      Inr (PyInt (hours * 3600 + minutes * 60 + seconds))
                  | _ \<Rightarrow> Inr (PyInt 0))
               else Inr (PyInt 0))
         else
           (case py_float time_str of
              Some x \<Rightarrow> Inr (PyFloat x)
            | None \<Rightarrow> Inr (PyInt 0)))"

text \<open>The decimal digits of a natural number, as \<open>str\<close> gives them.\<close>

function str_nat :: "nat \<Rightarrow> string" where
  "str_nat n = (if n < 10 then [char_of (48 + n)] else str_nat (n div 10) @ [char_of (48 + n mod 10)])"
  by pat_completeness auto
termination
  by (relation "measure id") auto

text \<open>The format \<open>02d\<close>: at least two characters, zeros after the sign.\<close>

definition fmt_02d :: "int \<Rightarrow> string" where
  "fmt_02d n =
     (if n < 0 then CHR ''-'' # str_nat (nat (- n))
      else replicate (2 - length (str_nat (nat n))) (CHR ''0'') @ str_nat (nat n))"

text \<open>Rounding to the nearest integer, a tie going to the even one.\<close>

definition round_half_even :: "real \<Rightarrow> int" where
  "round_half_even y =
     (let f = \<lfloor>y\<rfloor>; d = y - of_int f
      in if d < 1 / 2 then f
         else if 1 / 2 < d then f + 1
         else if even f then f else f + 1)"

text \<open>The format \<open>06.3f\<close> of a finite float: three decimals, at least six characters.\<close>

definition fmt_06_3f :: "real \<Rightarrow> string" where
  "fmt_06_3f x =
     (let m = nat (round_half_even (\<bar>x\<bar> * 1000));
          frac = str_nat (m mod 1000);
          body = str_nat (m div 1000) @ ''.'' @ replicate (3 - length frac) (CHR ''0'') @ frac;
          sgn = (if x < 0 then ''-'' else [])
      in sgn @ replicate (6 - length sgn - length body) (CHR ''0'') @ body)"

text \<open>\<open>x // y\<close> and \<open>x % y\<close> on finite floats, for a positive \<open>y\<close>.\<close>

definition float_floordiv :: "real \<Rightarrow> real \<Rightarrow> real" where
  "float_floordiv x y = of_int \<lfloor>x / y\<rfloor>"

definition float_mod :: "real \<Rightarrow> real \<Rightarrow> real" where
  "float_mod x y = x - y * of_int \<lfloor>x / y\<rfloor>"

text \<open>
  \<open>format_timecode\<close>. On an infinity or NaN, \<open>seconds // 3600\<close> is NaN and \<open>int\<close>
  raises ValueError.
\<close>

fun format_timecode :: "pynum \<Rightarrow> py_exn + string" where
  "format_timecode (PyInt seconds) =
     (let hours = seconds div 3600;
          minutes = (seconds mod 3600) div 60;
          secs = seconds mod 60
      in Inr (fmt_02d hours @ '':'' @ fmt_02d minutes @ '':'' @ fmt_06_3f (of_int secs)))"
| "format_timecode (PyFloat (Finite seconds)) =
     (let hours = \<lfloor>float_floordiv seconds 3600\<rfloor>;
          minutes = \<lfloor>float_floordiv (float_mod seconds 3600) 60\<rfloor>;
          secs = float_mod seconds 60
      in Inr (fmt_02d hours @ '':'' @ fmt_02d minutes @ '':'' @ fmt_06_3f secs))"
| "format_timecode (PyFloat _) = Inl ValueError"

section \<open>Column resolution\<close>

definition normalize_column_name :: "string \<Rightarrow> string" where
  "normalize_column_name column_name = strip (lower column_name)"

definition source_keywords :: "string list" where
  "source_keywords = [''script'', ''line'', ''text'', ''transcription'']"

text \<open>\<open>keyword in normalized_col\<close> is \<open>sublist keyword normalized_col\<close>.\<close>

definition source_match :: "string \<Rightarrow> bool" where
  "source_match col =
     list_ex (\<lambda>keyword. sublist keyword (normalize_column_name col)) source_keywords"

fun find_source_column :: "string list \<Rightarrow> string option" where
  "find_source_column [] = None"
| "find_source_column (col # cols) =
     (if source_match col then Some col else find_source_column cols)"

text \<open>The loop of \<open>upload_csv\<close> over the columns: a later match overwrites an earlier one.\<close>

record required_columns =
  speaker_col :: "string option"
  start_time_col :: "string option"
  end_time_col :: "string option"

fun find_required_columns :: "string list \<Rightarrow> required_columns \<Rightarrow> required_columns" where
  "find_required_columns [] found = found"
| "find_required_columns (col # cols) found =
     find_required_columns cols
       (if normalize_column_name col \<in> set [''speaker'']
        then found\<lparr>speaker_col := Some col\<rparr>
        else if normalize_column_name col \<in> set [''start_time'', ''starttime'', ''start time'']
        then found\<lparr>start_time_col := Some col\<rparr>
        else if normalize_column_name col \<in> set [''end_time'', ''endtime'', ''end time'']
        then found\<lparr>end_time_col := Some col\<rparr>
        else found)"

definition no_columns :: required_columns where
  "no_columns = \<lparr>speaker_col = None, start_time_col = None, end_time_col = None\<rparr>"

text \<open>\<open>not col\<close>: \<open>None\<close> and the empty string are false.\<close>

definition falsy :: "string option \<Rightarrow> bool" where
  "falsy col = (col = None \<or> col = Some [])"

definition missing_cols :: "required_columns \<Rightarrow> string option \<Rightarrow> string list" where
  "missing_cols found source_col =
     (if falsy (speaker_col found) then [''speaker''] else [])
     @ (if falsy (start_time_col found) then [''start_time''] else [])
     @ (if falsy (end_time_col found) then [''end_time''] else [])
     @ (if falsy source_col then [''source (script/line/text/transcription)''] else [])"

section \<open>Headers uppercased\<close>

text \<open>
  \<open>str.upper\<close>, which the program never calls, is what a header "uppercased" is. It
  leads out of the code points 0..255: the upper case of the y with diaeresis (255) is
  code point 376, and the upper case of the micro sign (181) is the Greek capital mu
  (924), whose lower case is the Greek small mu (956) and not the micro sign. The upper
  case of the sharp s (223) is the two letters \<open>SS\<close>. Neither \<open>str.upper\<close> nor
  \<open>str.lower\<close> leaves the code points 0..255 together with these three; a header and the
  header uppercased are lists of them, and code points other than these are outside the
  model. None of the three is whitespace.

  The functions with the suffix \<open>w\<close> are the functions of the same name above, on strings
  of this wider range: \<open>str.isspace\<close>, \<open>str.strip\<close>, \<open>str.lower\<close> and the column
  resolution of the program.
\<close>

datatype codepoint = Latin1 char | Capital_Y_diaeresis | Capital_mu | Small_mu

fun isspace_w :: "codepoint \<Rightarrow> bool" where
  "isspace_w (Latin1 c) = isspace c"
| "isspace_w Capital_Y_diaeresis = False"
| "isspace_w Capital_mu = False"
| "isspace_w Small_mu = False"

definition strip_w :: "codepoint list \<Rightarrow> codepoint list" where
  "strip_w s = rev (dropWhile isspace_w (rev (dropWhile isspace_w s)))"

fun lower_char_w :: "codepoint \<Rightarrow> codepoint" where
  "lower_char_w (Latin1 c) = Latin1 (lower_char c)"
| "lower_char_w Capital_Y_diaeresis = Latin1 (CHR 0xFF)"
| "lower_char_w Capital_mu = Small_mu"
| "lower_char_w Small_mu = Small_mu"

definition lower_w :: "codepoint list \<Rightarrow> codepoint list" where
  "lower_w s = map lower_char_w s"

fun upper_char :: "codepoint \<Rightarrow> codepoint list" where
  "upper_char (Latin1 c) =
     (let n = (of_char c :: nat)
      in if (97 \<le> n \<and> n \<le> 122) \<or> (224 \<le> n \<and> n \<le> 254 \<and> n \<noteq> 247)
         then [Latin1 (char_of (n - 32))]
         else if n = 223 then map Latin1 ''SS''
         else if n = 181 then [Capital_mu]
         else if n = 255 then [Capital_Y_diaeresis]
         else [Latin1 c])"
| "upper_char Capital_Y_diaeresis = [Capital_Y_diaeresis]"
| "upper_char Capital_mu = [Capital_mu]"
| "upper_char Small_mu = [Capital_mu]"

definition upper :: "codepoint list \<Rightarrow> codepoint list" where
  "upper s = concat (map upper_char s)"

definition normalize_column_name_w :: "codepoint list \<Rightarrow> codepoint list" where
  "normalize_column_name_w column_name = strip_w (lower_w column_name)"

definition source_keywords_w :: "codepoint list list" where
  "source_keywords_w =
     [map Latin1 ''script'', map Latin1 ''line'', map Latin1 ''text'',
      map Latin1 ''transcription'']"

definition source_match_w :: "codepoint list \<Rightarrow> bool" where
  "source_match_w col =
     list_ex (\<lambda>keyword. sublist keyword (normalize_column_name_w col)) source_keywords_w"

fun find_source_column_w :: "codepoint list list \<Rightarrow> codepoint list option" where
  "find_source_column_w [] = None"
| "find_source_column_w (col # cols) =
     (if source_match_w col then Some col else find_source_column_w cols)"

record required_columns_w =
  speaker_col_w :: "codepoint list option"
  start_time_col_w :: "codepoint list option"
  end_time_col_w :: "codepoint list option"

fun find_required_columns_w ::
  "codepoint list list \<Rightarrow> required_columns_w \<Rightarrow> required_columns_w" where
  "find_required_columns_w [] found = found"
| "find_required_columns_w (col # cols) found =
     find_required_columns_w cols
       (if normalize_column_name_w col \<in> set [map Latin1 ''speaker'']
        then found\<lparr>speaker_col_w := Some col\<rparr>
        else if normalize_column_name_w col
                  \<in> set [map Latin1 ''start_time'', map Latin1 ''starttime'',
                          map Latin1 ''start time'']
        then found\<lparr>start_time_col_w := Some col\<rparr>
        else if normalize_column_name_w col
                  \<in> set [map Latin1 ''end_time'', map Latin1 ''endtime'',
                          map Latin1 ''end time'']
        then found\<lparr>end_time_col_w := Some col\<rparr>
        else found)"

definition no_columns_w :: required_columns_w where
  "no_columns_w = \<lparr>speaker_col_w = None, start_time_col_w = None, end_time_col_w = None\<rparr>"


section \<open>Segments\<close>

record segment =
  seg_id :: nat
  speaker :: string
  start_time :: pynum
  end_time :: pynum
  start_time_formatted :: string
  end_time_formatted :: string
  seg_text :: string
  duration :: pynum

text \<open>A row gives, for a column name \<open>col\<close>, the text \<open>str(row[col])\<close>.\<close>

type_synonym row = "string \<Rightarrow> string"

text \<open>
  The loop over the rows. An exception of the two \<open>parse_timecode\<close> calls skips the
  row; an exception while the segment is built leaves the loop.
\<close>

fun build_segments ::
  "string \<Rightarrow> string \<Rightarrow> string \<Rightarrow> string \<Rightarrow> nat \<Rightarrow> row list \<Rightarrow> segment list
   \<Rightarrow> py_exn + segment list" where
  "build_segments spk st en src index [] segs = Inr segs"
| "build_segments spk st en src index (row # rows) segs =
     (case parse_timecode (row st) of
        Inl e \<Rightarrow> build_segments spk st en src (Suc index) rows segs
      | Inr start \<Rightarrow>
          (case parse_timecode (row en) of
             Inl e \<Rightarrow> build_segments spk st en src (Suc index) rows segs
           | Inr end \<Rightarrow>
               if num_ge start (PyInt 0) \<and> num_gt end start then
                 (case format_timecode start of
                    Inl e \<Rightarrow> Inl e
                  | Inr start_formatted \<Rightarrow>
                      (case format_timecode end of
                         Inl e \<Rightarrow> Inl e
                       | Inr end_formatted \<Rightarrow>
                           (case num_sub end start of
                              Inl e \<Rightarrow> Inl e
                            | Inr d \<Rightarrow>
                                build_segments spk st en src (Suc index) rows
                                  (segs @ [\<lparr>seg_id = index, speaker = row spk,
                                            start_time = start, end_time = end,
                                            start_time_formatted = start_formatted,
                                            end_time_formatted = end_formatted,
                                            seg_text = row src, duration = d\<rparr>]))))
               else build_segments spk st en src (Suc index) rows segs))"

text \<open>
  \<open>segments.sort(key=lambda x: x['start_time'])\<close>: the sort is stable and compares
  keys with \<open><\<close> only; insertion gives its result.
\<close>

fun insort_start :: "segment \<Rightarrow> segment list \<Rightarrow> segment list" where
  "insort_start x [] = [x]"
| "insort_start x (y # ys) =
     (if num_lt (start_time y) (start_time x) then y # insort_start x ys else x # y # ys)"

definition sort_start :: "segment list \<Rightarrow> segment list" where
  "sort_start segs = foldr insort_start segs []"

text \<open>\<open>max(xs)\<close> on a list that is not empty, \<open>m\<close> the maximum so far.\<close>

fun py_max :: "pynum \<Rightarrow> pynum list \<Rightarrow> pynum" where
  "py_max m [] = m"
| "py_max m (x # xs) = py_max (if num_gt x m then x else m) xs"

datatype upload_error =
  Missing_required_columns "string list"
| Error_processing_CSV py_exn

record upload_result =
  segments :: "segment list"
  speakers :: "string set"
  total_duration :: pynum

text \<open>
  \<open>upload_csv\<close> from the columns and rows of the data frame on: the answer is the
  error of a 400 response or the content of the 200 response.
\<close>

definition upload_csv :: "string list \<Rightarrow> row list \<Rightarrow> upload_error + upload_result" where
  "upload_csv header rows =
     (let columns = map strip header;
          found = find_required_columns columns no_columns;
          source_col = find_source_column columns
      in if falsy (speaker_col found) \<or> falsy (start_time_col found)
            \<or> falsy (end_time_col found) \<or> falsy source_col
         then Inl (Missing_required_columns (missing_cols found source_col))
         else
           (case (speaker_col found, start_time_col found, end_time_col found, source_col) of
              (Some spk, Some st, Some en, Some src) \<Rightarrow>
                (case build_segments spk st en src 0 rows [] of
                   Inl e \<Rightarrow> Inl (Error_processing_CSV e)
                 | Inr segs \<Rightarrow>
                     Inr \<lparr>segments = sort_start segs,
                          speakers = set (map speaker segs),
                          total_duration =
                            (case map end_time (sort_start segs) of
                               [] \<Rightarrow> PyInt 0
                             | x # xs \<Rightarrow> py_max x xs)\<rparr>)
            | _ \<Rightarrow> Inl (Missing_required_columns (missing_cols found source_col))))"

section \<open>Evaluation\<close>

declare str_nat.simps [simp del]

lemma str_nat_small: "n < 10 \<Longrightarrow> str_nat n = [char_of (48 + n)]"
  by (subst str_nat.simps) simp

lemma str_nat_big: "10 \<le> n \<Longrightarrow> str_nat n = str_nat (n div 10) @ [char_of (48 + n mod 10)]"
  by (subst str_nat.simps) simp

lemma replicate_evals:
  "replicate 1 x = [x]" "replicate 2 x = [x, x]" "replicate 3 x = [x, x, x]"
  "replicate 4 x = [x, x, x, x]" "replicate 5 x = [x, x, x, x, x]"
  "replicate 6 x = [x, x, x, x, x, x]"
  by (simp_all add: eval_nat_numeral)

lemma format_timecode_float:
  "format_timecode (PyFloat (Finite x)) =
     Inr (fmt_02d \<lfloor>float_floordiv x 3600\<rfloor> @ '':''
          @ fmt_02d \<lfloor>float_floordiv (float_mod x 3600) 60\<rfloor> @ '':''
          @ fmt_06_3f (float_mod x 60))"
  by (simp only: format_timecode.simps Let_def)

lemma format_timecode_int:
  "format_timecode (PyInt n) =
     Inr (fmt_02d (n div 3600) @ '':'' @ fmt_02d ((n mod 3600) div 60) @ '':''
          @ fmt_06_3f (of_int (n mod 60)))"
  by (simp only: format_timecode.simps Let_def)

lemma format_timecode_special:
  "format_timecode (PyFloat PosInf) = Inl ValueError"
  "format_timecode (PyFloat NegInf) = Inl ValueError"
  "format_timecode (PyFloat NaN) = Inl ValueError"
  by simp_all

declare format_timecode.simps [simp del]

lemmas char_evals = char_of_def bit_Suc_0_iff

lemmas format_evals =
  float_floordiv_def float_mod_def fmt_02d_def fmt_06_3f_def round_half_even_def
  str_nat_small str_nat_big replicate_evals char_evals

lemmas parse_evals =
  parse_timecode_def strip_def isspace_def py_int_def num_strip_def num_space_def
  is_digit_def digit_val_def Let_def

section \<open>The timecode formatter\<close>

text \<open>
  Claim C10. The formatter does not always carry the rounding of the seconds into the
  minutes: some non-negative input within 0.0005 of a whole minute is formatted with
  the seconds field \<open>60.000\<close>. The input \<open>59.99951171875 = 122879 / 2048\<close> is a
  double, and is formatted as \<open>00:00:60.000\<close>.
\<close>

theorem format_timecode_seconds_field_60:
  "format_timecode (PyFloat (Finite (122879 / 2048))) = Inr ''00:00:60.000''
   \<and> (0 :: real) \<le> 122879 / 2048
   \<and> \<bar>60 - 122879 / 2048 :: real\<bar> \<le> 5 / 10000"
  by (simp add: format_timecode_float format_evals)

text \<open>
  Claim C1. Parsing the text that the formatter produced for \<open>v \<ge> 0\<close> recovers \<open>v\<close>
  to within 0.001. It does not: the formatter writes \<open>1.0\<close> as \<open>00:00:01.000\<close>, which
  has three colon fields, the last of them no \<open>int\<close> literal, and the parser answers 0.
\<close>

theorem parse_format_one_second:
  "format_timecode (PyFloat (Finite 1)) = Inr ''00:00:01.000''
   \<and> parse_timecode ''00:00:01.000'' = Inr (PyInt 0)"
proof (intro conjI)
  show "format_timecode (PyFloat (Finite 1)) = Inr ''00:00:01.000''"
    by (simp add: format_timecode_float format_evals)
  show "parse_timecode ''00:00:01.000'' = Inr (PyInt 0)"
    by (simp add: parse_evals)
qed

section \<open>Facts about strings\<close>

lemma of_char_less_256: "(of_char c :: nat) < 256"
  by (metis of_char_mod_256 mod_less_divisor zero_less_numeral)

lemma isspace_lower_char: "isspace (lower_char c) = isspace c"
  using of_char_less_256 [of c]
  by (auto simp: isspace_def lower_char_def Let_def)

lemma dropWhile_all: "\<forall>x \<in> set xs. P x \<Longrightarrow> dropWhile P xs = []"
  by simp

section \<open>Facts about the column resolution\<close>

lemma source_match_iff:
  "source_match col \<longleftrightarrow>
     (\<exists>keyword \<in> set [''script'', ''line'', ''text'', ''transcription''].
        \<exists>before after. strip (lower col) = before @ keyword @ after)"
  unfolding source_match_def source_keywords_def normalize_column_name_def list_ex_iff sublist_def
  by blast

lemma find_source_column_find: "find_source_column cols = List.find source_match cols"
  by (induction cols) simp_all

lemma find_append:
  "List.find P (xs @ ys) = (case List.find P xs of None \<Rightarrow> List.find P ys | Some x \<Rightarrow> Some x)"
  by (induction xs) simp_all

lemma speaker_col_find:
  "speaker_col (find_required_columns cols found) =
     (case List.find (\<lambda>col. normalize_column_name col = ''speaker'') (rev cols) of
        None \<Rightarrow> speaker_col found
      | Some col \<Rightarrow> Some col)"
  by (induction cols arbitrary: found) (simp_all add: find_append split: option.splits)

lemma start_time_col_find:
  "start_time_col (find_required_columns cols found) =
     (case List.find (\<lambda>col. normalize_column_name col
                          \<in> {''start_time'', ''starttime'', ''start time''}) (rev cols) of
        None \<Rightarrow> start_time_col found
      | Some col \<Rightarrow> Some col)"
  by (induction cols arbitrary: found) (auto simp: find_append split: option.splits)

lemma end_time_col_find:
  "end_time_col (find_required_columns cols found) =
     (case List.find (\<lambda>col. normalize_column_name col
                          \<in> {''end_time'', ''endtime'', ''end time''}) (rev cols) of
        None \<Rightarrow> end_time_col found
      | Some col \<Rightarrow> Some col)"
  by (induction cols arbitrary: found) (auto simp: find_append split: option.splits)

lemma find_none: "\<forall>x \<in> set xs. \<not> P x \<Longrightarrow> List.find P xs = None"
  by (simp add: find_None_iff)

lemma find_first:
  "P c \<Longrightarrow> \<forall>d \<in> set before. \<not> P d \<Longrightarrow> List.find P (before @ [c] @ after) = Some c"
  by (simp add: find_append find_none)

lemma find_rev_last:
  "P c \<Longrightarrow> \<forall>d \<in> set after. \<not> P d \<Longrightarrow> List.find P (rev (before @ [c] @ after)) = Some c"
  by (simp add: find_append find_none)

lemmas column_evals =
  source_match_def source_keywords_def normalize_column_name_def strip_def isspace_def
  lower_def lower_char_def char_evals sublist_code prefix_code

section \<open>The column resolver\<close>

text \<open>
  Claim C7. The source column is the first header, in column order, whose normalized
  (lowercased, stripped) form contains one of \<open>script\<close>, \<open>line\<close>, \<open>text\<close>,
  \<open>transcription\<close>: a matching header with no matching header before it is the one
  found, and no column is found when no header matches. The headers \<open>id\<close>, \<open>Line\<close>,
  \<open>Transcription\<close> give \<open>Line\<close>.
\<close>

theorem find_source_column_first_match:
  "(source_match c \<and> (\<forall>d \<in> set before. \<not> source_match d)
      \<longrightarrow> find_source_column (before @ [c] @ after) = Some c)
   \<and> ((\<forall>d \<in> set cols. \<not> source_match d) \<longrightarrow> find_source_column cols = None)
   \<and> (source_match col \<longleftrightarrow>
        (\<exists>keyword \<in> set [''script'', ''line'', ''text'', ''transcription''].
           \<exists>pre post. strip (lower col) = pre @ keyword @ post))"
proof (intro conjI impI)
  assume "source_match c \<and> (\<forall>d \<in> set before. \<not> source_match d)"
  then show "find_source_column (before @ [c] @ after) = Some c"
    unfolding find_source_column_find by (intro find_first) simp_all
next
  assume "\<forall>d \<in> set cols. \<not> source_match d"
  then show "find_source_column cols = None"
    unfolding find_source_column_find by (rule find_none)
next
  show "source_match col \<longleftrightarrow>
        (\<exists>keyword \<in> set [''script'', ''line'', ''text'', ''transcription''].
           \<exists>pre post. strip (lower col) = pre @ keyword @ post)"
    by (rule source_match_iff)
qed

theorem find_source_column_first_match_witness:
  "source_match ''Line'' \<and> \<not> source_match ''id''
   \<and> find_source_column ([''id''] @ [''Line''] @ [''Transcription'']) = Some ''Line''"
proof -
  have h: "source_match ''Line'' \<and> (\<forall>d \<in> set [''id'']. \<not> source_match d)"
    by (simp add: column_evals)
  have "find_source_column ([''id''] @ [''Line''] @ [''Transcription'']) = Some ''Line''"
    using find_source_column_first_match
            [of "''Line''" "[''id'']" "[''Transcription'']", THEN conjunct1] h
    by (rule mp)
  with h show ?thesis
    by simp
qed

text \<open>
  Claim C9. When several headers match the same keyword after normalization, the
  speaker, start-time and end-time columns are the last such header in column order,
  and the source column is the first matching header.
\<close>

theorem duplicate_headers_last_and_first:
  "(normalize_column_name c = ''speaker''
      \<and> (\<forall>d \<in> set after. normalize_column_name d \<noteq> ''speaker'')
      \<longrightarrow> speaker_col (find_required_columns (before @ [c] @ after) found) = Some c)
   \<and> (normalize_column_name c \<in> {''start_time'', ''starttime'', ''start time''}
      \<and> (\<forall>d \<in> set after.
            normalize_column_name d \<notin> {''start_time'', ''starttime'', ''start time''})
      \<longrightarrow> start_time_col (find_required_columns (before @ [c] @ after) found) = Some c)
   \<and> (normalize_column_name c \<in> {''end_time'', ''endtime'', ''end time''}
      \<and> (\<forall>d \<in> set after.
            normalize_column_name d \<notin> {''end_time'', ''endtime'', ''end time''})
      \<longrightarrow> end_time_col (find_required_columns (before @ [c] @ after) found) = Some c)
   \<and> (source_match c \<and> (\<forall>d \<in> set before. \<not> source_match d)
      \<longrightarrow> find_source_column (before @ [c] @ after) = Some c)"
proof (intro conjI impI)
  assume "normalize_column_name c = ''speaker''
    \<and> (\<forall>d \<in> set after. normalize_column_name d \<noteq> ''speaker'')"
  then show "speaker_col (find_required_columns (before @ [c] @ after) found) = Some c"
    unfolding speaker_col_find
    by (subst find_rev_last) simp_all
next
  assume "normalize_column_name c \<in> {''start_time'', ''starttime'', ''start time''}
    \<and> (\<forall>d \<in> set after.
          normalize_column_name d \<notin> {''start_time'', ''starttime'', ''start time''})"
  then show "start_time_col (find_required_columns (before @ [c] @ after) found) = Some c"
    unfolding start_time_col_find
    by (subst find_rev_last) simp_all
next
  assume "normalize_column_name c \<in> {''end_time'', ''endtime'', ''end time''}
    \<and> (\<forall>d \<in> set after.
          normalize_column_name d \<notin> {''end_time'', ''endtime'', ''end time''})"
  then show "end_time_col (find_required_columns (before @ [c] @ after) found) = Some c"
    unfolding end_time_col_find
    by (subst find_rev_last) simp_all
next
  assume "source_match c \<and> (\<forall>d \<in> set before. \<not> source_match d)"
  then show "find_source_column (before @ [c] @ after) = Some c"
    unfolding find_source_column_find by (intro find_first) simp_all
qed

theorem duplicate_headers_last_and_first_witness:
  "normalize_column_name ''Speaker'' = ''speaker''
   \<and> normalize_column_name ''text'' \<noteq> ''speaker''
   \<and> normalize_column_name ''Text'' \<noteq> ''speaker''
   \<and> speaker_col (find_required_columns ([''speaker''] @ [''Speaker''] @ [''text'', ''Text''])
        no_columns) = Some ''Speaker''
   \<and> source_match ''text'' \<and> \<not> source_match ''speaker'' \<and> \<not> source_match ''Speaker''
   \<and> find_source_column ([''speaker'', ''Speaker''] @ [''text''] @ [''Text'']) = Some ''text''"
proof -
  have h1: "normalize_column_name ''Speaker'' = ''speaker''
      \<and> (\<forall>d \<in> set [''text'', ''Text'']. normalize_column_name d \<noteq> ''speaker'')"
    by (simp add: column_evals)
  have h2: "source_match ''text'' \<and> (\<forall>d \<in> set [''speaker'', ''Speaker'']. \<not> source_match d)"
    by (simp add: column_evals)
  have 1: "speaker_col (find_required_columns
              ([''speaker''] @ [''Speaker''] @ [''text'', ''Text'']) no_columns) = Some ''Speaker''"
    using duplicate_headers_last_and_first
            [of "''Speaker''" "[''text'', ''Text'']" "[''speaker'']" no_columns, THEN conjunct1] h1
    by (rule mp)
  have 2: "find_source_column ([''speaker'', ''Speaker''] @ [''text''] @ [''Text'']) = Some ''text''"
    using duplicate_headers_last_and_first
            [of "''text''" "[''Text'']" "[''speaker'', ''Speaker'']" no_columns,
             THEN conjunct2, THEN conjunct2, THEN conjunct2] h2
    by (rule mp)
  from h1 h2 1 2 show ?thesis
    by simp
qed

section \<open>Facts about headers uppercased\<close>

lemma isspace_lower_char_w: "isspace_w (lower_char_w c) = isspace_w c"
proof (cases c)
  case (Latin1 x)
  then show ?thesis by (simp add: isspace_lower_char)
next
  case Capital_Y_diaeresis
  then show ?thesis by (simp add: isspace_def)
qed simp_all

lemma strip_lower_w: "strip_w (lower_w s) = lower_w (strip_w s)"
proof -
  have "isspace_w \<circ> lower_char_w = isspace_w"
    by (rule ext) (simp add: isspace_lower_char_w)
  then show ?thesis
    by (simp add: strip_w_def lower_w_def dropWhile_map rev_map)
qed

lemma strip_w_append_left: "\<forall>c \<in> set ws. isspace_w c \<Longrightarrow> strip_w (ws @ s) = strip_w s"
  by (simp add: strip_w_def)

lemma strip_w_append_right: "\<forall>c \<in> set ws. isspace_w c \<Longrightarrow> strip_w (s @ ws) = strip_w s"
proof (cases "\<forall>c \<in> set s. isspace_w c")
  case True
  assume "\<forall>c \<in> set ws. isspace_w c"
  with True show ?thesis
    by (simp add: strip_w_def dropWhile_all del: dropWhile_eq_Nil_conv)
next
  case False
  assume "\<forall>c \<in> set ws. isspace_w c"
  with False show ?thesis
    by (auto simp: strip_w_def dropWhile_append)
qed

lemma strip_w_padded:
  "\<forall>c \<in> set ws. isspace_w c \<Longrightarrow> \<forall>c \<in> set ws'. isspace_w c \<Longrightarrow>
     strip_w (ws @ h @ ws') = strip_w h"
  by (simp add: strip_w_append_left strip_w_append_right)

lemma set_strip_w: "set (strip_w s) \<subseteq> set s"
proof -
  have "set (strip_w s) \<subseteq> set (dropWhile isspace_w s)"
    unfolding strip_w_def set_rev by (metis set_dropWhileD set_rev subsetI)
  also have "\<dots> \<subseteq> set s"
    by (meson set_dropWhileD subsetI)
  finally show ?thesis .
qed

text \<open>The upper case of a whitespace character is itself, that of another one has none.\<close>

lemma upper_char_space: "isspace_w c \<Longrightarrow> upper_char c = [c]"
proof (cases c)
  case (Latin1 x)
  assume "isspace_w c"
  with Latin1 have "(of_char x :: nat) \<in> {9, 10, 11, 12, 13, 28, 29, 30, 31, 32, 133, 160}"
    by (simp add: isspace_def)
  then have "(of_char x :: nat) \<le> 32 \<or> (of_char x :: nat) = 133 \<or> (of_char x :: nat) = 160"
    by auto
  with Latin1 show ?thesis
    by (auto simp: Let_def)
qed simp_all

lemma not_isspace_capital:
  "(65 \<le> m \<and> m \<le> 90) \<or> (192 \<le> m \<and> m \<le> 222) \<Longrightarrow> \<not> isspace (char_of (m :: nat))"
proof -
  assume m: "(65 \<le> m \<and> m \<le> 90) \<or> (192 \<le> m \<and> m \<le> 222)"
  then have "m mod 256 = m"
    by auto
  with m show ?thesis
    unfolding isspace_def of_char_of by auto
qed

lemma upper_char_no_space:
  "\<not> isspace_w c \<Longrightarrow> upper_char c \<noteq> [] \<and> (\<forall>d \<in> set (upper_char c). \<not> isspace_w d)"
proof (cases c)
  case (Latin1 x)
  assume ns: "\<not> isspace_w c"
  let ?n = "of_char x :: nat"
  show ?thesis
  proof (cases "(97 \<le> ?n \<and> ?n \<le> 122) \<or> (224 \<le> ?n \<and> ?n \<le> 254 \<and> ?n \<noteq> 247)")
    case True
    then have "(65 \<le> ?n - 32 \<and> ?n - 32 \<le> 90) \<or> (192 \<le> ?n - 32 \<and> ?n - 32 \<le> 222)"
      by arith
    then have "\<not> isspace (char_of (?n - 32))"
      by (rule not_isspace_capital)
    moreover from True have "upper_char c = [Latin1 (char_of (?n - 32))]"
      unfolding Latin1 upper_char.simps Let_def by (rule if_P)
    ultimately show ?thesis
      by simp
  next
    case False
    then have "upper_char c =
        (if ?n = 223 then map Latin1 ''SS''
         else if ?n = 181 then [Capital_mu]
         else if ?n = 255 then [Capital_Y_diaeresis]
         else [Latin1 x])"
      unfolding Latin1 upper_char.simps Let_def by (rule if_not_P)
    moreover have "\<not> isspace CHR ''S''"
      by (simp add: isspace_def)
    moreover from ns Latin1 have "\<not> isspace x"
      by simp
    ultimately show ?thesis
      by simp
  qed
qed simp_all

lemma dropWhile_concat_map:
  assumes "\<And>c. P c \<Longrightarrow> f c = [c]"
    and "\<And>c. \<not> P c \<Longrightarrow> f c \<noteq> [] \<and> \<not> P (hd (f c))"
  shows "dropWhile P (concat (map f s)) = concat (map f (dropWhile P s))"
proof (induction s)
  case Nil
  then show ?case by simp
next
  case (Cons c s)
  show ?case
  proof (cases "P c")
    case True
    with Cons assms(1) [of c] show ?thesis by simp
  next
    case False
    from assms(2) [OF False] obtain d ds where "f c = d # ds" "\<not> P d"
      by (cases "f c") auto
    with False show ?thesis by simp
  qed
qed

lemma strip_upper: "strip_w (upper h) = upper (strip_w h)"
proof -
  have 1: "dropWhile isspace_w (concat (map upper_char s))
             = concat (map upper_char (dropWhile isspace_w s))" for s
  proof (rule dropWhile_concat_map)
    fix c assume "\<not> isspace_w c"
    from upper_char_no_space [OF this]
    show "upper_char c \<noteq> [] \<and> \<not> isspace_w (hd (upper_char c))"
      by simp
  qed (rule upper_char_space)
  have 2: "dropWhile isspace_w (concat (map (rev \<circ> upper_char) s))
             = concat (map (rev \<circ> upper_char) (dropWhile isspace_w s))" for s
  proof (rule dropWhile_concat_map)
    fix c assume "\<not> isspace_w c"
    from upper_char_no_space [OF this]
    show "(rev \<circ> upper_char) c \<noteq> [] \<and> \<not> isspace_w (hd ((rev \<circ> upper_char) c))"
      by (simp add: hd_rev)
  next
    fix c assume "isspace_w c"
    then show "(rev \<circ> upper_char) c = [c]"
      by (simp add: upper_char_space)
  qed
  have 3: "rev (concat (map upper_char s)) = concat (map (rev \<circ> upper_char) (rev s))" for s
    by (simp add: rev_concat rev_map)
  have 4: "rev (concat (map (rev \<circ> upper_char) s)) = concat (map upper_char (rev s))" for s
    by (simp add: rev_concat rev_map comp_def)
  show ?thesis
    by (simp only: strip_w_def upper_def 1 2 3 4)
qed

text \<open>A change of characters that keeps whitespace commutes with \<open>strip\<close>.\<close>

lemma strip_w_map:
  assumes "\<And>d. isspace_w (g d) = isspace_w d"
  shows "strip_w (map g x) = map g (strip_w x)"
proof -
  have "isspace_w \<circ> g = isspace_w"
    by (rule ext) (simp add: assms)
  then show ?thesis
    by (simp add: strip_w_def dropWhile_map rev_map)
qed

text \<open>
  A change of characters that reaches the characters of \<open>k\<close> only from themselves
  neither makes nor unmakes \<open>k\<close>, as a whole string or as a part of one.
\<close>

lemma map_eq_fixed:
  "(\<forall>c \<in> set k. \<forall>d. g d = c \<longrightarrow> d = c) \<Longrightarrow> map g x = k \<Longrightarrow> x = k"
proof (induction x arbitrary: k)
  case Nil
  then show ?case by simp
next
  case (Cons d x)
  from Cons.prems(2) obtain c k' where k: "k = c # k'" "g d = c" "map g x = k'"
    by (cases k) auto
  from Cons.prems(1) k have "d = c"
    by simp
  moreover have "x = k'"
    using Cons.IH [of k'] Cons.prems(1) k by simp
  ultimately show ?case
    using k by simp
qed

lemma map_eq_fixed_iff:
  assumes "\<forall>c \<in> set k. \<forall>d. g d = c \<longrightarrow> d = c" and "map g k = k"
  shows "map g x = k \<longleftrightarrow> x = k"
  using assms map_eq_fixed [of k g x] by auto

lemma sublist_map_fixed_iff:
  assumes "\<forall>c \<in> set k. \<forall>d. g d = c \<longrightarrow> d = c" and "map g k = k"
  shows "sublist k (map g x) \<longleftrightarrow> sublist k x"
proof
  assume "sublist k (map g x)"
  then obtain pre post where "map g x = pre @ (k @ post)"
    by (auto simp: sublist_def)
  then obtain x1 y where 1: "x = x1 @ y" "k @ post = map g y"
    unfolding map_eq_append_conv by blast
  from 1(2) obtain x2 x3 where 2: "y = x2 @ x3" "map g x2 = k"
    unfolding append_eq_map_conv by metis
  from map_eq_fixed [OF assms(1) 2(2)] have "x2 = k" .
  with 1(1) 2(1) have "x = x1 @ k @ x3"
    by simp
  then show "sublist k x"
    unfolding sublist_def by blast
next
  assume "sublist k x"
  then obtain pre post where "x = pre @ k @ post"
    by (auto simp: sublist_def)
  then have "map g x = map g pre @ k @ map g post"
    by (simp add: assms(2))
  then show "sublist k (map g x)"
    unfolding sublist_def by blast
qed

text \<open>
  The lower case of the upper case of a character other than the sharp s is its lower
  case, but for the micro sign, which comes back as the Greek small mu.
\<close>

lemma char_eq_of_char: "(of_char x :: nat) = of_char y \<Longrightarrow> x = y"
  by simp

lemma lower_upper_char_w:
  assumes "c \<noteq> Latin1 (CHR 0xDF)"
  shows "map lower_char_w (upper_char c)
           = [if lower_char_w c = Latin1 (CHR 0xB5) then Small_mu else lower_char_w c]"
proof (cases c)
  case (Latin1 x)
  let ?n = "of_char x :: nat"
  have n: "?n < 256"
    by (rule of_char_less_256)
  from assms Latin1 have "x \<noteq> CHR 0xDF"
    by simp
  then have n223: "?n \<noteq> 223"
    using char_eq_of_char [of x "CHR 0xDF"] by auto
  have mu: "?n = 181 \<longleftrightarrow> x = CHR 0xB5"
    using char_eq_of_char [of x "CHR 0xB5"] by auto
  have y: "?n = 255 \<longleftrightarrow> x = CHR 0xFF"
    using char_eq_of_char [of x "CHR 0xFF"] by auto
  show ?thesis
  proof (cases "(97 \<le> ?n \<and> ?n \<le> 122) \<or> (224 \<le> ?n \<and> ?n \<le> 254 \<and> ?n \<noteq> 247)")
    case True
    then have up: "upper_char c = [Latin1 (char_of (?n - 32))]"
      unfolding Latin1 upper_char.simps Let_def by (rule if_P)
    from True have m: "(?n - 32) mod 256 = ?n - 32"
      "(65 \<le> ?n - 32 \<and> ?n - 32 \<le> 90) \<or> (192 \<le> ?n - 32 \<and> ?n - 32 \<le> 222 \<and> ?n - 32 \<noteq> 215)"
      "?n - 32 + 32 = ?n"
      by auto
    have "lower_char (char_of (?n - 32)) = char_of (?n - 32 + 32)"
      unfolding lower_char_def Let_def of_char_of m(1) using m(2) by (rule if_P)
    then have 1: "lower_char (char_of (?n - 32)) = x"
      by (simp only: m(3) char_of_char)
    from True have "\<not> ((65 \<le> ?n \<and> ?n \<le> 90) \<or> (192 \<le> ?n \<and> ?n \<le> 222 \<and> ?n \<noteq> 215))"
      by arith
    then have 2: "lower_char x = x"
      unfolding lower_char_def Let_def by (rule if_not_P)
    from True mu have 3: "x \<noteq> CHR 0xB5"
      by auto
    show ?thesis
      unfolding up by (simp add: Latin1 1 2 3)
  next
    case False
    then have up: "upper_char c =
        (if ?n = 223 then map Latin1 ''SS''
         else if ?n = 181 then [Capital_mu]
         else if ?n = 255 then [Capital_Y_diaeresis]
         else [Latin1 x])"
      unfolding Latin1 upper_char.simps Let_def by (rule if_not_P)
    show ?thesis
    proof (cases "?n = 181 \<or> ?n = 255")
      case True
      then have "\<not> ((65 \<le> ?n \<and> ?n \<le> 90) \<or> (192 \<le> ?n \<and> ?n \<le> 222 \<and> ?n \<noteq> 215))"
        by arith
      then have "lower_char x = x"
        unfolding lower_char_def Let_def by (rule if_not_P)
      with True mu y show ?thesis
        unfolding up by (auto simp: Latin1)
    next
      case other: False
      have "lower_char x \<noteq> CHR 0xB5"
      proof
        assume a: "lower_char x = CHR 0xB5"
        show False
        proof (cases "(65 \<le> ?n \<and> ?n \<le> 90) \<or> (192 \<le> ?n \<and> ?n \<le> 222 \<and> ?n \<noteq> 215)")
          case True
          then have "lower_char x = char_of (?n + 32)"
            unfolding lower_char_def Let_def by (rule if_P)
          with a have "(of_char (char_of (?n + 32) :: char) :: nat) = of_char (CHR 0xB5)"
            by simp
          then have "(?n + 32) mod 256 = 181"
            by (simp add: of_char_of)
          with True show False
            by auto
        next
          case False
          then have "lower_char x = x"
            unfolding lower_char_def Let_def by (rule if_not_P)
          with a mu other show False
            by simp
        qed
      qed
      with other n223 show ?thesis
        unfolding up by (simp add: Latin1)
    qed
  qed
qed simp_all

lemma lower_upper_w:
  "Latin1 (CHR 0xDF) \<notin> set h \<Longrightarrow>
     lower_w (upper h)
       = map (\<lambda>d. if d = Latin1 (CHR 0xB5) then Small_mu else d) (lower_w h)"
proof (induction h)
  case Nil
  then show ?case by (simp add: lower_w_def upper_def)
next
  case (Cons c h)
  then have "c \<noteq> Latin1 (CHR 0xDF)" "Latin1 (CHR 0xDF) \<notin> set h"
    by auto
  with Cons.IH lower_upper_char_w [of c] show ?case
    by (simp add: lower_w_def upper_def)
qed

lemma upper_normalized:
  assumes "Latin1 (CHR 0xDF) \<notin> set h"
  shows "normalize_column_name_w (upper h)
           = map (\<lambda>d. if d = Latin1 (CHR 0xB5) then Small_mu else d)
               (normalize_column_name_w h)"
proof -
  have "\<not> isspace (CHR 0xB5)"
    by (simp add: isspace_def)
  then have "isspace_w (if d = Latin1 (CHR 0xB5) then Small_mu else d) = isspace_w d" for d
    by simp
  then show ?thesis
    unfolding normalize_column_name_w_def lower_upper_w [OF assms]
    by (rule strip_w_map)
qed

lemma upper_role_tests:
  assumes "Latin1 (CHR 0xDF) \<notin> set h" and "CHR 0xB5 \<notin> set s"
  shows "normalize_column_name_w (upper h) = map Latin1 s
           \<longleftrightarrow> normalize_column_name_w h = map Latin1 s"
    and "sublist (map Latin1 s) (normalize_column_name_w (upper h))
           \<longleftrightarrow> sublist (map Latin1 s) (normalize_column_name_w h)"
proof -
  let ?g = "\<lambda>d. if d = Latin1 (CHR 0xB5) then Small_mu else d"
  from assms(2) have 1: "\<forall>c \<in> set (map Latin1 s). \<forall>d. ?g d = c \<longrightarrow> d = c"
    by auto
  from assms(2) have 2: "map ?g (map Latin1 s) = map Latin1 s"
    by (induction s) auto
  show "normalize_column_name_w (upper h) = map Latin1 s
           \<longleftrightarrow> normalize_column_name_w h = map Latin1 s"
    unfolding upper_normalized [OF assms(1)] using 1 2 by (rule map_eq_fixed_iff)
  show "sublist (map Latin1 s) (normalize_column_name_w (upper h))
           \<longleftrightarrow> sublist (map Latin1 s) (normalize_column_name_w h)"
    unfolding upper_normalized [OF assms(1)] using 1 2 by (rule sublist_map_fixed_iff)
qed

lemma source_match_upper:
  assumes "Latin1 (CHR 0xDF) \<notin> set h"
  shows "source_match_w (upper h) = source_match_w h"
proof -
  note t = upper_role_tests(2) [OF assms]
  have k: "CHR 0xB5 \<notin> set ''script''" "CHR 0xB5 \<notin> set ''line''" "CHR 0xB5 \<notin> set ''text''"
    "CHR 0xB5 \<notin> set ''transcription''"
    by simp_all
  show ?thesis
    unfolding source_match_w_def source_keywords_w_def list_ex_Cons_iff list_ex_Nil_iff
    by (simp only: t [OF k(1)] t [OF k(2)] t [OF k(3)] t [OF k(4)])
qed

lemma speaker_upper:
  assumes "Latin1 (CHR 0xDF) \<notin> set h"
  shows "(normalize_column_name_w (upper h) = map Latin1 ''speaker'')
       = (normalize_column_name_w h = map Latin1 ''speaker'')"
proof -
  have "CHR 0xB5 \<notin> set ''speaker''"
    by simp
  with assms show ?thesis
    by (rule upper_role_tests(1))
qed

lemma start_time_upper:
  assumes "Latin1 (CHR 0xDF) \<notin> set h"
  shows "(normalize_column_name_w (upper h)
        \<in> {map Latin1 ''start_time'', map Latin1 ''starttime'', map Latin1 ''start time''})
       = (normalize_column_name_w h
        \<in> {map Latin1 ''start_time'', map Latin1 ''starttime'', map Latin1 ''start time''})"
proof -
  note t = upper_role_tests(1) [OF assms]
  have k: "CHR 0xB5 \<notin> set ''start_time''" "CHR 0xB5 \<notin> set ''starttime''"
    "CHR 0xB5 \<notin> set ''start time''"
    by simp_all
  show ?thesis
    unfolding insert_iff empty_iff
    by (simp only: t [OF k(1)] t [OF k(2)] t [OF k(3)])
qed

lemma end_time_upper:
  assumes "Latin1 (CHR 0xDF) \<notin> set h"
  shows "(normalize_column_name_w (upper h)
        \<in> {map Latin1 ''end_time'', map Latin1 ''endtime'', map Latin1 ''end time''})
       = (normalize_column_name_w h
        \<in> {map Latin1 ''end_time'', map Latin1 ''endtime'', map Latin1 ''end time''})"
proof -
  note t = upper_role_tests(1) [OF assms]
  have k: "CHR 0xB5 \<notin> set ''end_time''" "CHR 0xB5 \<notin> set ''endtime''"
    "CHR 0xB5 \<notin> set ''end time''"
    by simp_all
  show ?thesis
    unfolding insert_iff empty_iff
    by (simp only: t [OF k(1)] t [OF k(2)] t [OF k(3)])
qed

section \<open>Facts about the resolution of such headers\<close>

lemma find_source_column_w_find: "find_source_column_w cols = List.find source_match_w cols"
  by (induction cols) simp_all

lemma speaker_col_w_find:
  "speaker_col_w (find_required_columns_w cols found) =
     (case List.find (\<lambda>col. normalize_column_name_w col = map Latin1 ''speaker'') (rev cols) of
        None \<Rightarrow> speaker_col_w found
      | Some col \<Rightarrow> Some col)"
  by (induction cols arbitrary: found) (simp_all add: find_append split: option.splits)

lemma start_time_col_w_find:
  "start_time_col_w (find_required_columns_w cols found) =
     (case List.find (\<lambda>col. normalize_column_name_w col
                \<in> {map Latin1 ''start_time'', map Latin1 ''starttime'',
                    map Latin1 ''start time''}) (rev cols) of
        None \<Rightarrow> start_time_col_w found
      | Some col \<Rightarrow> Some col)"
  by (induction cols arbitrary: found) (auto simp: find_append split: option.splits)

lemma end_time_col_w_find:
  "end_time_col_w (find_required_columns_w cols found) =
     (case List.find (\<lambda>col. normalize_column_name_w col
                \<in> {map Latin1 ''end_time'', map Latin1 ''endtime'',
                    map Latin1 ''end time''}) (rev cols) of
        None \<Rightarrow> end_time_col_w found
      | Some col \<Rightarrow> Some col)"
  by (induction cols arbitrary: found) (auto simp: find_append split: option.splits)

lemma find_map_same:
  "\<forall>x \<in> set xs. P (f x) = P x \<Longrightarrow> List.find P (map f xs) = map_option f (List.find P xs)"
  by (induction xs) simp_all

lemma resolution_upper:
  assumes "\<forall>h \<in> set cols. Latin1 (CHR 0xDF) \<notin> set h"
  shows "speaker_col_w (find_required_columns_w (map upper cols) no_columns_w)
           = map_option upper (speaker_col_w (find_required_columns_w cols no_columns_w))"
    and "start_time_col_w (find_required_columns_w (map upper cols) no_columns_w)
           = map_option upper (start_time_col_w (find_required_columns_w cols no_columns_w))"
    and "end_time_col_w (find_required_columns_w (map upper cols) no_columns_w)
           = map_option upper (end_time_col_w (find_required_columns_w cols no_columns_w))"
    and "find_source_column_w (map upper cols) = map_option upper (find_source_column_w cols)"
proof -
  from assms have r: "\<forall>h \<in> set (rev cols). Latin1 (CHR 0xDF) \<notin> set h"
    by simp
  have 1: "List.find (\<lambda>col. normalize_column_name_w col = map Latin1 ''speaker'')
             (map upper (rev cols))
           = map_option upper
               (List.find (\<lambda>col. normalize_column_name_w col = map Latin1 ''speaker'')
                  (rev cols))"
    by (rule find_map_same) (use r speaker_upper in blast)
  have 2: "List.find (\<lambda>col. normalize_column_name_w col
                \<in> {map Latin1 ''start_time'', map Latin1 ''starttime'',
                    map Latin1 ''start time''}) (map upper (rev cols))
           = map_option upper
               (List.find (\<lambda>col. normalize_column_name_w col
                  \<in> {map Latin1 ''start_time'', map Latin1 ''starttime'',
                      map Latin1 ''start time''}) (rev cols))"
    by (rule find_map_same) (use r start_time_upper in blast)
  have 3: "List.find (\<lambda>col. normalize_column_name_w col
                \<in> {map Latin1 ''end_time'', map Latin1 ''endtime'',
                    map Latin1 ''end time''}) (map upper (rev cols))
           = map_option upper
               (List.find (\<lambda>col. normalize_column_name_w col
                  \<in> {map Latin1 ''end_time'', map Latin1 ''endtime'',
                      map Latin1 ''end time''}) (rev cols))"
    by (rule find_map_same) (use r end_time_upper in blast)
  have n: "speaker_col_w no_columns_w = None" "start_time_col_w no_columns_w = None"
    "end_time_col_w no_columns_w = None"
    by (simp_all add: no_columns_w_def)
  show "speaker_col_w (find_required_columns_w (map upper cols) no_columns_w)
           = map_option upper (speaker_col_w (find_required_columns_w cols no_columns_w))"
    unfolding speaker_col_w_find rev_map [symmetric] n
    unfolding rev_map 1 by (simp split: option.splits)
  show "start_time_col_w (find_required_columns_w (map upper cols) no_columns_w)
           = map_option upper (start_time_col_w (find_required_columns_w cols no_columns_w))"
    unfolding start_time_col_w_find rev_map [symmetric] n
    unfolding rev_map 2 by (simp split: option.splits)
  show "end_time_col_w (find_required_columns_w (map upper cols) no_columns_w)
           = map_option upper (end_time_col_w (find_required_columns_w cols no_columns_w))"
    unfolding end_time_col_w_find rev_map [symmetric] n
    unfolding rev_map 3 by (simp split: option.splits)
  show "find_source_column_w (map upper cols) = map_option upper (find_source_column_w cols)"
    unfolding find_source_column_w_find
    by (rule find_map_same) (use assms source_match_upper in blast)
qed

lemma strip_upper_columns: "map strip_w (map upper header) = map upper (map strip_w header)"
  by (simp add: strip_upper)

lemma stripped_columns_no_sharp_s:
  "\<forall>h \<in> set header. Latin1 (CHR 0xDF) \<notin> set h \<Longrightarrow>
     \<forall>h \<in> set (map strip_w header). Latin1 (CHR 0xDF) \<notin> set h"
  using set_strip_w by fastforce

lemma lower_w_append: "lower_w (xs @ ys) = lower_w xs @ lower_w ys"
  by (simp add: lower_w_def)

lemma isspace_lower_w: "\<forall>c \<in> set ws. isspace_w c \<Longrightarrow> \<forall>c \<in> set (lower_w ws). isspace_w c"
  by (simp add: lower_w_def isspace_lower_char_w)

lemma normalize_w_padded:
  assumes "\<forall>c \<in> set ws. isspace_w c" and "\<forall>c \<in> set ws'. isspace_w c"
  shows "normalize_column_name_w (ws @ h @ ws') = normalize_column_name_w h"
  unfolding normalize_column_name_w_def lower_w_append
  using isspace_lower_w [OF assms(1)] isspace_lower_w [OF assms(2)]
  by (rule strip_w_padded)

lemma strip_w_padded_columns:
  assumes "\<forall>c \<in> set ws. isspace_w c" and "\<forall>c \<in> set ws'. isspace_w c"
  shows "map strip_w (map (\<lambda>h. ws @ h @ ws') header) = map strip_w header"
  by (simp add: strip_w_padded [OF assms])

lemmas column_w_evals =
  source_match_w_def source_keywords_w_def normalize_column_name_w_def strip_w_def
  lower_w_def upper_def no_columns_w_def isspace_def lower_char_def Let_def char_evals
  sublist_code prefix_code

lemma speaker_examples:
  "speaker_col_w (find_required_columns_w (map strip_w [map Latin1 '' Speaker '']) no_columns_w)
       = Some (map Latin1 ''Speaker'')"
  "speaker_col_w (find_required_columns_w (map strip_w [map Latin1 ''SPEAKER'']) no_columns_w)
       = Some (map Latin1 ''SPEAKER'')"
  "speaker_col_w (find_required_columns_w (map strip_w [map Latin1 ''speaker'']) no_columns_w)
       = Some (map Latin1 ''speaker'')"
  by (simp_all add: column_w_evals)


section \<open>Agreement with the resolver on code points below 256\<close>

text \<open>
  On headers of code points below 256 the functions with the suffix \<open>w\<close> give what the
  functions without it give: the same normalized form, the same source column and the
  same speaker, start-time and end-time columns.
\<close>

lemma strip_w_Latin1: "strip_w (map Latin1 s) = map Latin1 (strip s)"
proof -
  have "isspace_w \<circ> Latin1 = isspace"
    by (rule ext) simp
  then show ?thesis
    by (simp add: strip_w_def strip_def dropWhile_map rev_map)
qed

lemma lower_w_Latin1: "lower_w (map Latin1 s) = map Latin1 (lower s)"
  by (simp add: lower_w_def lower_def)

lemma normalize_w_Latin1:
  "normalize_column_name_w (map Latin1 s) = map Latin1 (normalize_column_name s)"
  by (simp only: normalize_column_name_w_def normalize_column_name_def lower_w_Latin1
        strip_w_Latin1)

lemma map_Latin1_eq: "map Latin1 x = map Latin1 y \<longleftrightarrow> x = y"
  by (rule inj_map_eq_map) (simp add: inj_on_def)

lemma sublist_Latin1: "sublist (map Latin1 k) (map Latin1 x) \<longleftrightarrow> sublist k x"
proof
  assume "sublist (map Latin1 k) (map Latin1 x)"
  then obtain k' where "sublist k' x" "map Latin1 k = map Latin1 k'"
    by (auto dest: sublist_map_rightE)
  then show "sublist k x"
    by (simp add: map_Latin1_eq)
next
  assume "sublist k x"
  then obtain pre post where "x = pre @ k @ post"
    by (auto simp: sublist_def)
  then have "map Latin1 x = map Latin1 pre @ map Latin1 k @ map Latin1 post"
    by simp
  then show "sublist (map Latin1 k) (map Latin1 x)"
    unfolding sublist_def by blast
qed

lemma source_match_w_Latin1: "source_match_w (map Latin1 col) = source_match col"
  by (simp only: source_match_w_def source_match_def source_keywords_w_def source_keywords_def
        normalize_w_Latin1 list_ex_Cons_iff list_ex_Nil_iff sublist_Latin1)

lemma find_source_column_w_Latin1:
  "find_source_column_w (map (map Latin1) cols)
     = map_option (map Latin1) (find_source_column cols)"
  by (induction cols) (simp_all add: source_match_w_Latin1)

lemma find_required_columns_w_Latin1:
  assumes "speaker_col_w found_w = map_option (map Latin1) (speaker_col found)"
    and "start_time_col_w found_w = map_option (map Latin1) (start_time_col found)"
    and "end_time_col_w found_w = map_option (map Latin1) (end_time_col found)"
  shows "speaker_col_w (find_required_columns_w (map (map Latin1) cols) found_w)
           = map_option (map Latin1) (speaker_col (find_required_columns cols found))
         \<and> start_time_col_w (find_required_columns_w (map (map Latin1) cols) found_w)
           = map_option (map Latin1) (start_time_col (find_required_columns cols found))
         \<and> end_time_col_w (find_required_columns_w (map (map Latin1) cols) found_w)
           = map_option (map Latin1) (end_time_col (find_required_columns cols found))"
  using assms
proof (induction cols arbitrary: found found_w)
  case Nil
  then show ?case by simp
next
  case (Cons col cols)
  have n: "(normalize_column_name_w (map Latin1 col) = map Latin1 k)
             = (normalize_column_name col = k)" for k
    by (simp only: normalize_w_Latin1 map_Latin1_eq)
  have c: "map (map Latin1) (col # cols) = map Latin1 col # map (map Latin1) cols"
    by simp
  show ?case
    unfolding c find_required_columns_w.simps find_required_columns.simps
    by (rule Cons.IH) (simp_all add: Cons.prems n del: list.map)
qed

section \<open>Case and whitespace of the headers\<close>

text \<open>
  Claim C8, as stated, for a header uppercased: \<open>str.upper\<close> turns the sharp s into
  \<open>SS\<close>, whose lower case is \<open>ss\<close>. The header made of the sharp s and \<open>cript\<close> is no
  source column; uppercased it is \<open>SSCRIPT\<close>, which contains \<open>script\<close> once lowercased,
  and is one.
\<close>

theorem uppercase_changes_source_column:
  "find_source_column_w (map strip_w [map Latin1 (CHR 0xDF # ''cript'')]) = None
   \<and> find_source_column_w (map strip_w [upper (map Latin1 (CHR 0xDF # ''cript''))])
       = Some (map Latin1 ''SSCRIPT'')"
  by (simp add: column_w_evals)

text \<open>
  Claim C8, for headers of code points below 256 (and of the three code points that their
  upper and lower case reach). The column resolution does not depend on whitespace around
  the headers: a header and the header surrounded by whitespace have the same normalized
  form, and the resolution of the headers surrounded by whitespace is that of the headers.
  It does not depend on the case of headers without the sharp s either: each test that
  decides the role of a header gives the same result on the header uppercased, and the
  column found for a role among the headers uppercased is the uppercased column found
  for that role among the headers. The headers \<open>Speaker\<close> with blanks around it,
  \<open>SPEAKER\<close> and \<open>speaker\<close> all resolve to the speaker column.
\<close>

theorem column_resolution_insensitive:
  "((\<forall>h \<in> set header. Latin1 (CHR 0xDF) \<notin> set h) \<longrightarrow>
      speaker_col_w (find_required_columns_w (map strip_w (map upper header)) no_columns_w)
        = map_option upper
            (speaker_col_w (find_required_columns_w (map strip_w header) no_columns_w))
      \<and> start_time_col_w
          (find_required_columns_w (map strip_w (map upper header)) no_columns_w)
        = map_option upper
            (start_time_col_w (find_required_columns_w (map strip_w header) no_columns_w))
      \<and> end_time_col_w (find_required_columns_w (map strip_w (map upper header)) no_columns_w)
        = map_option upper
            (end_time_col_w (find_required_columns_w (map strip_w header) no_columns_w))
      \<and> find_source_column_w (map strip_w (map upper header))
        = map_option upper (find_source_column_w (map strip_w header)))
   \<and> (Latin1 (CHR 0xDF) \<notin> set h \<longrightarrow>
        (normalize_column_name_w (upper h) \<in> set [map Latin1 ''speaker''])
          = (normalize_column_name_w h \<in> set [map Latin1 ''speaker''])
        \<and> (normalize_column_name_w (upper h)
              \<in> set [map Latin1 ''start_time'', map Latin1 ''starttime'',
                      map Latin1 ''start time''])
          = (normalize_column_name_w h
              \<in> set [map Latin1 ''start_time'', map Latin1 ''starttime'',
                      map Latin1 ''start time''])
        \<and> (normalize_column_name_w (upper h)
              \<in> set [map Latin1 ''end_time'', map Latin1 ''endtime'',
                      map Latin1 ''end time''])
          = (normalize_column_name_w h
              \<in> set [map Latin1 ''end_time'', map Latin1 ''endtime'',
                      map Latin1 ''end time''])
        \<and> source_match_w (upper h) = source_match_w h)
   \<and> ((\<forall>c \<in> set ws. isspace_w c) \<and> (\<forall>c \<in> set ws'. isspace_w c) \<longrightarrow>
        normalize_column_name_w (ws @ h @ ws') = normalize_column_name_w h
        \<and> find_required_columns_w (map strip_w (map (\<lambda>h. ws @ h @ ws') header)) no_columns_w
          = find_required_columns_w (map strip_w header) no_columns_w
        \<and> find_source_column_w (map strip_w (map (\<lambda>h. ws @ h @ ws') header))
          = find_source_column_w (map strip_w header))
   \<and> speaker_col_w (find_required_columns_w (map strip_w [map Latin1 '' Speaker ''])
        no_columns_w) = Some (map Latin1 ''Speaker'')
   \<and> speaker_col_w (find_required_columns_w (map strip_w [map Latin1 ''SPEAKER''])
        no_columns_w) = Some (map Latin1 ''SPEAKER'')
   \<and> speaker_col_w (find_required_columns_w (map strip_w [map Latin1 ''speaker''])
        no_columns_w) = Some (map Latin1 ''speaker'')"
proof (intro conjI impI)
  assume "\<forall>h \<in> set header. Latin1 (CHR 0xDF) \<notin> set h"
  then have s: "\<forall>h \<in> set (map strip_w header). Latin1 (CHR 0xDF) \<notin> set h"
    by (rule stripped_columns_no_sharp_s)
  show "speaker_col_w (find_required_columns_w (map strip_w (map upper header)) no_columns_w)
        = map_option upper
            (speaker_col_w (find_required_columns_w (map strip_w header) no_columns_w))"
    unfolding strip_upper_columns using s by (rule resolution_upper(1))
  show "start_time_col_w
          (find_required_columns_w (map strip_w (map upper header)) no_columns_w)
        = map_option upper
            (start_time_col_w (find_required_columns_w (map strip_w header) no_columns_w))"
    unfolding strip_upper_columns using s by (rule resolution_upper(2))
  show "end_time_col_w (find_required_columns_w (map strip_w (map upper header)) no_columns_w)
        = map_option upper
            (end_time_col_w (find_required_columns_w (map strip_w header) no_columns_w))"
    unfolding strip_upper_columns using s by (rule resolution_upper(3))
  show "find_source_column_w (map strip_w (map upper header))
        = map_option upper (find_source_column_w (map strip_w header))"
    unfolding strip_upper_columns using s by (rule resolution_upper(4))
next
  assume h: "Latin1 (CHR 0xDF) \<notin> set h"
  show "(normalize_column_name_w (upper h) \<in> set [map Latin1 ''speaker''])
          = (normalize_column_name_w h \<in> set [map Latin1 ''speaker''])"
    unfolding list.set insert_iff empty_iff simp_thms using h by (rule speaker_upper)
  show "(normalize_column_name_w (upper h)
              \<in> set [map Latin1 ''start_time'', map Latin1 ''starttime'',
                      map Latin1 ''start time''])
          = (normalize_column_name_w h
              \<in> set [map Latin1 ''start_time'', map Latin1 ''starttime'',
                      map Latin1 ''start time''])"
    unfolding list.set using h by (rule start_time_upper)
  show "(normalize_column_name_w (upper h)
              \<in> set [map Latin1 ''end_time'', map Latin1 ''endtime'',
                      map Latin1 ''end time''])
          = (normalize_column_name_w h
              \<in> set [map Latin1 ''end_time'', map Latin1 ''endtime'',
                      map Latin1 ''end time''])"
    unfolding list.set using h by (rule end_time_upper)
  show "source_match_w (upper h) = source_match_w h"
    using h by (rule source_match_upper)
next
  assume w: "(\<forall>c \<in> set ws. isspace_w c) \<and> (\<forall>c \<in> set ws'. isspace_w c)"
  then show "normalize_column_name_w (ws @ h @ ws') = normalize_column_name_w h"
    by (simp add: normalize_w_padded)
  from w have p: "map strip_w (map (\<lambda>h. ws @ h @ ws') header) = map strip_w header"
    using strip_w_padded_columns [of ws ws' header] by blast
  show "find_required_columns_w (map strip_w (map (\<lambda>h. ws @ h @ ws') header)) no_columns_w
          = find_required_columns_w (map strip_w header) no_columns_w"
    by (simp only: p)
  show "find_source_column_w (map strip_w (map (\<lambda>h. ws @ h @ ws') header))
          = find_source_column_w (map strip_w header)"
    by (simp only: p)
qed (rule speaker_examples)+

theorem column_resolution_insensitive_witness:
  "Latin1 (CHR 0xDF) \<notin> set (map Latin1 '' Speaker'')
   \<and> Latin1 (CHR 0xDF) \<notin> set (map Latin1 (CHR 0xFF # ''Line''))
   \<and> speaker_col_w (find_required_columns_w
        (map strip_w (map upper [map Latin1 '' Speaker'', map Latin1 (CHR 0xFF # ''Line'')]))
        no_columns_w)
     = map_option upper (speaker_col_w (find_required_columns_w
         (map strip_w [map Latin1 '' Speaker'', map Latin1 (CHR 0xFF # ''Line'')])
         no_columns_w))
   \<and> find_source_column_w
        (map strip_w (map upper [map Latin1 '' Speaker'', map Latin1 (CHR 0xFF # ''Line'')]))
     = map_option upper (find_source_column_w
         (map strip_w [map Latin1 '' Speaker'', map Latin1 (CHR 0xFF # ''Line'')]))
   \<and> find_source_column_w
        (map strip_w (map upper [map Latin1 '' Speaker'', map Latin1 (CHR 0xFF # ''Line'')]))
     = Some (Capital_Y_diaeresis # map Latin1 ''LINE'')
   \<and> Latin1 (CHR 0xDF) \<notin> set (map Latin1 (CHR 0xB5 # ''Script''))
   \<and> source_match_w (upper (map Latin1 (CHR 0xB5 # ''Script'')))
     = source_match_w (map Latin1 (CHR 0xB5 # ''Script''))
   \<and> source_match_w (map Latin1 (CHR 0xB5 # ''Script''))
   \<and> isspace_w (Latin1 CHR '' '')
   \<and> normalize_column_name_w
        ([Latin1 CHR '' ''] @ map Latin1 (CHR 0xB5 # ''Script'') @ [Latin1 CHR '' ''])
     = normalize_column_name_w (map Latin1 (CHR 0xB5 # ''Script''))
   \<and> find_source_column_w (map strip_w (map (\<lambda>h. [Latin1 CHR '' ''] @ h @ [Latin1 CHR '' ''])
        [map Latin1 '' Speaker'', map Latin1 (CHR 0xFF # ''Line'')]))
     = find_source_column_w
         (map strip_w [map Latin1 '' Speaker'', map Latin1 (CHR 0xFF # ''Line'')])"
proof -
  note t = column_resolution_insensitive
             [where header = "[map Latin1 '' Speaker'', map Latin1 (CHR 0xFF # ''Line'')]"
                and h = "map Latin1 (CHR 0xB5 # ''Script'')"
                and ws = "[Latin1 CHR '' '']" and ws' = "[Latin1 CHR '' '']"]
  have h1: "\<forall>h \<in> set [map Latin1 '' Speaker'', map Latin1 (CHR 0xFF # ''Line'')].
              Latin1 (CHR 0xDF) \<notin> set h"
    by simp
  have h2: "Latin1 (CHR 0xDF) \<notin> set (map Latin1 (CHR 0xB5 # ''Script''))"
    by simp
  have h3: "(\<forall>c \<in> set [Latin1 CHR '' '']. isspace_w c)
            \<and> (\<forall>c \<in> set [Latin1 CHR '' '']. isspace_w c)"
    by (simp add: isspace_def)
  note u = t [THEN conjunct1, THEN mp, OF h1]
  note v = t [THEN conjunct2, THEN conjunct1, THEN mp, OF h2]
  note w = t [THEN conjunct2, THEN conjunct2, THEN conjunct1, THEN mp, OF h3]
  have e: "find_source_column_w
        (map strip_w (map upper [map Latin1 '' Speaker'', map Latin1 (CHR 0xFF # ''Line'')]))
     = Some (Capital_Y_diaeresis # map Latin1 ''LINE'')"
    by (simp add: column_w_evals)
  have m: "source_match_w (map Latin1 (CHR 0xB5 # ''Script''))"
    by (simp add: column_w_evals)
  from h1 have a: "Latin1 (CHR 0xDF) \<notin> set (map Latin1 '' Speaker'')"
    "Latin1 (CHR 0xDF) \<notin> set (map Latin1 (CHR 0xFF # ''Line''))"
    by simp_all
  from h3 have b: "isspace_w (Latin1 CHR '' '')"
    by simp
  show ?thesis
    by (intro conjI a b e m h2 u [THEN conjunct1]
          u [THEN conjunct2, THEN conjunct2, THEN conjunct2]
          v [THEN conjunct2, THEN conjunct2, THEN conjunct2]
          w [THEN conjunct1] w [THEN conjunct2, THEN conjunct2])
qed

section \<open>Missing columns\<close>

lemma speaker_col_initial:
  "speaker_col (find_required_columns cols no_columns) =
     List.find (\<lambda>col. normalize_column_name col = ''speaker'') (rev cols)"
  by (simp add: speaker_col_find no_columns_def split: option.splits)

lemma start_time_col_initial:
  "start_time_col (find_required_columns cols no_columns) =
     List.find (\<lambda>col. normalize_column_name col
                  \<in> {''start_time'', ''starttime'', ''start time''}) (rev cols)"
  by (simp add: start_time_col_find no_columns_def split: option.splits)

lemma end_time_col_initial:
  "end_time_col (find_required_columns cols no_columns) =
     List.find (\<lambda>col. normalize_column_name col
                  \<in> {''end_time'', ''endtime'', ''end time''}) (rev cols)"
  by (simp add: end_time_col_find no_columns_def split: option.splits)

lemma find_Some_holds: "List.find P xs = Some x \<Longrightarrow> P x"
  by (auto simp: find_Some_iff)

lemma normalize_Nil: "normalize_column_name [] = []"
  by (simp add: normalize_column_name_def strip_def lower_def)

lemma falsy_speaker_col:
  "falsy (speaker_col (find_required_columns cols no_columns))
     \<longleftrightarrow> speaker_col (find_required_columns cols no_columns) = None"
  unfolding falsy_def speaker_col_initial
  using find_Some_holds [of "\<lambda>col. normalize_column_name col = ''speaker''" "rev cols" "[]"]
  by (auto simp: normalize_Nil)

lemma falsy_start_time_col:
  "falsy (start_time_col (find_required_columns cols no_columns))
     \<longleftrightarrow> start_time_col (find_required_columns cols no_columns) = None"
  unfolding falsy_def start_time_col_initial
  using find_Some_holds
          [of "\<lambda>col. normalize_column_name col \<in> {''start_time'', ''starttime'', ''start time''}"
              "rev cols" "[]"]
  by (auto simp: normalize_Nil)

lemma falsy_end_time_col:
  "falsy (end_time_col (find_required_columns cols no_columns))
     \<longleftrightarrow> end_time_col (find_required_columns cols no_columns) = None"
  unfolding falsy_def end_time_col_initial
  using find_Some_holds
          [of "\<lambda>col. normalize_column_name col \<in> {''end_time'', ''endtime'', ''end time''}"
              "rev cols" "[]"]
  by (auto simp: normalize_Nil)

lemma source_match_Nil: "\<not> source_match []"
  by (simp add: source_match_def source_keywords_def normalize_Nil)

lemma falsy_source_col:
  "falsy (find_source_column cols) \<longleftrightarrow> find_source_column cols = None"
  unfolding falsy_def find_source_column_find
  using find_Some_holds [of source_match cols "[]"]
  by (auto simp: source_match_Nil)

lemmas falsy_columns = falsy_speaker_col falsy_start_time_col falsy_end_time_col falsy_source_col

text \<open>
  Claim C6. When one of the four roles is not resolved, the upload is rejected with
  the list of exactly the roles that are missing, and there are no segments; when
  all four are resolved, the upload is not rejected for missing columns.
\<close>

theorem missing_columns_rejected:
  assumes "found = find_required_columns (map strip header) no_columns"
    and "source_col = find_source_column (map strip header)"
  shows "(speaker_col found = None \<or> start_time_col found = None
            \<or> end_time_col found = None \<or> source_col = None \<longrightarrow>
          upload_csv header rows
            = Inl (Missing_required_columns (missing_cols found source_col)))
       \<and> (''speaker'' \<in> set (missing_cols found source_col)
            \<longleftrightarrow> speaker_col found = None)
       \<and> (''start_time'' \<in> set (missing_cols found source_col)
            \<longleftrightarrow> start_time_col found = None)
       \<and> (''end_time'' \<in> set (missing_cols found source_col)
            \<longleftrightarrow> end_time_col found = None)
       \<and> (''source (script/line/text/transcription)'' \<in> set (missing_cols found source_col)
            \<longleftrightarrow> source_col = None)
       \<and> set (missing_cols found source_col)
            \<subseteq> {''speaker'', ''start_time'', ''end_time'',
                ''source (script/line/text/transcription)''}
       \<and> (speaker_col found \<noteq> None \<and> start_time_col found \<noteq> None
            \<and> end_time_col found \<noteq> None \<and> source_col \<noteq> None \<longrightarrow>
          (\<forall>ms. upload_csv header rows \<noteq> Inl (Missing_required_columns ms)))"
proof (intro conjI impI)
  assume "speaker_col found = None \<or> start_time_col found = None
            \<or> end_time_col found = None \<or> source_col = None"
  then show "upload_csv header rows
            = Inl (Missing_required_columns (missing_cols found source_col))"
    unfolding assms upload_csv_def Let_def
    by (simp only: falsy_columns if_True)
next
  show "''speaker'' \<in> set (missing_cols found source_col) \<longleftrightarrow> speaker_col found = None"
    unfolding assms missing_cols_def by (simp add: falsy_columns)
next
  show "''start_time'' \<in> set (missing_cols found source_col)
          \<longleftrightarrow> start_time_col found = None"
    unfolding assms missing_cols_def by (simp add: falsy_columns)
next
  show "''end_time'' \<in> set (missing_cols found source_col) \<longleftrightarrow> end_time_col found = None"
    unfolding assms missing_cols_def by (simp add: falsy_columns)
next
  show "''source (script/line/text/transcription)'' \<in> set (missing_cols found source_col)
          \<longleftrightarrow> source_col = None"
    unfolding assms missing_cols_def by (simp add: falsy_columns)
next
  show "set (missing_cols found source_col)
          \<subseteq> {''speaker'', ''start_time'', ''end_time'',
              ''source (script/line/text/transcription)''}"
    unfolding missing_cols_def by (auto split: if_splits)
next
  assume all: "speaker_col found \<noteq> None \<and> start_time_col found \<noteq> None
            \<and> end_time_col found \<noteq> None \<and> source_col \<noteq> None"
  then obtain spk st en src where
    "speaker_col found = Some spk" "start_time_col found = Some st"
    "end_time_col found = Some en" "source_col = Some src"
    by auto
  then show "\<forall>ms. upload_csv header rows \<noteq> Inl (Missing_required_columns ms)"
    using assms falsy_columns [of "map strip header"]
    by (simp add: upload_csv_def Let_def split: sum.splits)
qed


theorem missing_columns_rejected_witness:
  "find_required_columns (map strip [''start_time'', ''end_time'', ''text'']) no_columns
     = \<lparr>speaker_col = None, start_time_col = Some ''start_time'',
        end_time_col = Some ''end_time''\<rparr>
   \<and> find_source_column (map strip [''start_time'', ''end_time'', ''text'']) = Some ''text''
   \<and> upload_csv [''start_time'', ''end_time'', ''text''] []
       = Inl (Missing_required_columns [''speaker''])"
proof -
  have f: "find_required_columns (map strip [''start_time'', ''end_time'', ''text'']) no_columns
     = \<lparr>speaker_col = None, start_time_col = Some ''start_time'',
        end_time_col = Some ''end_time''\<rparr>"
    by (simp add: column_evals no_columns_def)
  have s: "find_source_column (map strip [''start_time'', ''end_time'', ''text'']) = Some ''text''"
    by (simp add: column_evals)
  note t = missing_columns_rejected
             [OF f [symmetric] s [symmetric], of "[]", THEN conjunct1]
  have "upload_csv [''start_time'', ''end_time'', ''text''] []
       = Inl (Missing_required_columns
                (missing_cols \<lparr>speaker_col = None, start_time_col = Some ''start_time'',
                               end_time_col = Some ''end_time''\<rparr> (Some ''text'')))"
    by (rule t [THEN mp]) simp
  then have "upload_csv [''start_time'', ''end_time'', ''text''] []
       = Inl (Missing_required_columns [''speaker''])"
    by (simp add: missing_cols_def falsy_def)
  with f s show ?thesis
    by blast
qed

section \<open>The timecode parser\<close>

lemma those_None_iff: "those xs = None \<longleftrightarrow> None \<in> set xs"
  by (induction xs) (auto split: option.splits)

lemma those_map_Some: "those (map Some xs) = Some xs"
  by (induction xs) simp_all

lemma those_length: "those xs = Some ys \<Longrightarrow> length ys = length xs"
  by (induction xs arbitrary: ys) (auto split: option.splits)

lemma parse_timecode_no_colon:
  "CHR '':'' \<notin> set (strip s) \<Longrightarrow>
     parse_timecode s
       = (case py_float (strip s) of Some x \<Rightarrow> Inr (PyFloat x) | None \<Rightarrow> Inr (PyInt 0))"
  by (simp add: parse_timecode_def)

lemma parse_timecode_other_count:
  "CHR '':'' \<in> set (strip s) \<Longrightarrow> length (split (CHR '':'') (strip s)) \<noteq> 3 \<Longrightarrow>
     length (split (CHR '':'') (strip s)) \<noteq> 4 \<Longrightarrow> parse_timecode s = Inr (PyInt 0)"
  by (simp add: parse_timecode_def)

lemma parse_timecode_not_int:
  "CHR '':'' \<in> set (strip s) \<Longrightarrow> None \<in> set (map py_int (split (CHR '':'') (strip s))) \<Longrightarrow>
     parse_timecode s = Inr (PyInt 0)"
proof -
  assume c: "CHR '':'' \<in> set (strip s)"
    and n: "None \<in> set (map py_int (split (CHR '':'') (strip s)))"
  from n have "those (map py_int (split (CHR '':'') (strip s))) = None"
    by (simp only: those_None_iff)
  with c show ?thesis
    by (simp add: parse_timecode_def Let_def)
qed

lemma parse_timecode_three:
  "CHR '':'' \<in> set (strip s) \<Longrightarrow>
     map py_int (split (CHR '':'') (strip s)) = [Some h, Some m, Some sec] \<Longrightarrow>
     parse_timecode s = Inr (PyInt (h * 3600 + m * 60 + sec))"
proof -
  assume c: "CHR '':'' \<in> set (strip s)"
    and f: "map py_int (split (CHR '':'') (strip s)) = [Some h, Some m, Some sec]"
  from f have "length (map py_int (split (CHR '':'') (strip s))) = 3"
    by simp
  then have l: "length (split (CHR '':'') (strip s)) = 3"
    by simp
  show ?thesis
    using c by (simp add: parse_timecode_def l f)
qed

lemma parse_timecode_four:
  "CHR '':'' \<in> set (strip s) \<Longrightarrow>
     map py_int (split (CHR '':'') (strip s)) = [Some h, Some m, Some sec, Some f] \<Longrightarrow>
     parse_timecode s
       = (case int_div_30 f of
            Inl e \<Rightarrow> Inl e
          | Inr q \<Rightarrow> int_add_float (h * 3600 + m * 60 + sec) q)"
proof -
  assume c: "CHR '':'' \<in> set (strip s)"
    and f: "map py_int (split (CHR '':'') (strip s)) = [Some h, Some m, Some sec, Some f]"
  from f have "length (map py_int (split (CHR '':'') (strip s))) = 4"
    by simp
  then have l: "length (split (CHR '':'') (strip s)) = 4"
    by simp
  show ?thesis
    using c by (simp add: parse_timecode_def l f)
qed

lemma parse_timecode_three_returns:
  assumes "CHR '':'' \<in> set (strip s)" and "length (split (CHR '':'') (strip s)) = 3"
  shows "\<exists>n. parse_timecode s = Inr (PyInt n)"
proof (cases "those (map py_int (split (CHR '':'') (strip s)))")
  case None
  with assms show ?thesis
    by (simp add: parse_timecode_def)
next
  case (Some ints)
  from those_length [OF Some] assms(2) have "length ints = 3"
    by simp
  then obtain h m sec where "ints = [h, m, sec]"
    by (auto simp: length_Suc_conv eval_nat_numeral)
  with Some assms show ?thesis
    by (simp add: parse_timecode_def)
qed


lemmas number_evals =
  int_div_30_def int_add_float_def float_of_int_def float_of_real_def overflow_bound_def
  num_ge_def num_gt_def num_lt_def num_eq_def

text \<open>
  Claim C2, as stated: for every text the parser returns a non-negative number. The
  text \<open>-1:0:0\<close> has three \<open>int\<close> fields and gives \<open>-3600\<close>; \<open>upload_csv\<close> tests
  \<open>start_time >= 0\<close> itself.
\<close>

theorem parse_timecode_negative:
  "parse_timecode ''-1:0:0'' = Inr (PyInt (- 3600)) \<and> \<not> num_ge (PyInt (- 3600)) (PyInt 0)"
  by (simp add: parse_evals number_evals)

text \<open>
  Claim C2. For every text other than four colon fields that are all \<open>int\<close>
  literals, the parser returns a number and does not raise; the number is 0 when the
  text has no colon and is no \<open>float\<close> literal, when it has a colon and a number of
  fields other than 3 and 4, and when it has 3 or 4 fields of which one is no \<open>int\<close>
  literal. The number need not be non-negative.
\<close>

theorem parse_timecode_returns:
  "(CHR '':'' \<notin> set (strip s) \<longrightarrow>
      (\<exists>v. parse_timecode s = Inr v)
      \<and> (py_float (strip s) = None \<longrightarrow> parse_timecode s = Inr (PyInt 0)))
   \<and> (CHR '':'' \<in> set (strip s) \<and> length (split (CHR '':'') (strip s)) \<noteq> 4 \<longrightarrow>
      (\<exists>v. parse_timecode s = Inr v)
      \<and> (length (split (CHR '':'') (strip s)) \<noteq> 3 \<longrightarrow> parse_timecode s = Inr (PyInt 0)))
   \<and> (CHR '':'' \<in> set (strip s) \<and> None \<in> set (map py_int (split (CHR '':'') (strip s))) \<longrightarrow>
      parse_timecode s = Inr (PyInt 0))"
proof (intro conjI impI)
  assume "CHR '':'' \<notin> set (strip s)"
  then show "\<exists>v. parse_timecode s = Inr v"
    by (simp add: parse_timecode_no_colon split: option.splits)
next
  assume "CHR '':'' \<notin> set (strip s)" and "py_float (strip s) = None"
  then show "parse_timecode s = Inr (PyInt 0)"
    by (simp add: parse_timecode_no_colon)
next
  assume a: "CHR '':'' \<in> set (strip s) \<and> length (split (CHR '':'') (strip s)) \<noteq> 4"
  show "\<exists>v. parse_timecode s = Inr v"
  proof (cases "length (split (CHR '':'') (strip s)) = 3")
    case True
    with a parse_timecode_three_returns [of s] show ?thesis
      by blast
  next
    case False
    with a parse_timecode_other_count [of s] show ?thesis
      by blast
  qed
next
  assume "CHR '':'' \<in> set (strip s) \<and> length (split (CHR '':'') (strip s)) \<noteq> 4"
    and "length (split (CHR '':'') (strip s)) \<noteq> 3"
  then show "parse_timecode s = Inr (PyInt 0)"
    by (simp add: parse_timecode_other_count)
next
  assume "CHR '':'' \<in> set (strip s)
    \<and> None \<in> set (map py_int (split (CHR '':'') (strip s)))"
  then show "parse_timecode s = Inr (PyInt 0)"
    by (simp only: parse_timecode_not_int)
qed

theorem parse_timecode_returns_witness:
  "CHR '':'' \<notin> set (strip ''abc'') \<and> py_float (strip ''abc'') = None
   \<and> parse_timecode ''abc'' = Inr (PyInt 0)
   \<and> CHR '':'' \<in> set (strip ''1:2'') \<and> length (split (CHR '':'') (strip ''1:2'')) \<noteq> 4
   \<and> length (split (CHR '':'') (strip ''1:2'')) \<noteq> 3
   \<and> parse_timecode ''1:2'' = Inr (PyInt 0)
   \<and> CHR '':'' \<in> set (strip ''1:x:3:4'')
   \<and> None \<in> set (map py_int (split (CHR '':'') (strip ''1:x:3:4'')))
   \<and> parse_timecode ''1:x:3:4'' = Inr (PyInt 0)"
proof -
  have a: "CHR '':'' \<notin> set (strip ''abc'')" "py_float (strip ''abc'') = None"
    by (simp_all add: strip_def isspace_def py_float_def num_strip_def num_space_def
          lower_def lower_char_def char_evals decimal_def is_e_def is_digit_def Let_def)
  have b: "CHR '':'' \<in> set (strip ''1:2'') \<and> length (split (CHR '':'') (strip ''1:2'')) \<noteq> 4"
    "length (split (CHR '':'') (strip ''1:2'')) \<noteq> 3"
    by (simp_all add: strip_def isspace_def)
  have c: "CHR '':'' \<in> set (strip ''1:x:3:4'')
      \<and> None \<in> set (map py_int (split (CHR '':'') (strip ''1:x:3:4'')))"
    by (simp add: strip_def isspace_def py_int_def num_strip_def num_space_def is_digit_def)
  have 1: "parse_timecode ''abc'' = Inr (PyInt 0)"
    using parse_timecode_returns [of "''abc''", THEN conjunct1] a by blast
  have 2: "parse_timecode ''1:2'' = Inr (PyInt 0)"
    using parse_timecode_returns [of "''1:2''", THEN conjunct2, THEN conjunct1] b by blast
  have 3: "parse_timecode ''1:x:3:4'' = Inr (PyInt 0)"
    using parse_timecode_returns [of "''1:x:3:4''", THEN conjunct2, THEN conjunct2] c by (rule mp)
  from a b c 1 2 3 show ?thesis
    by blast
qed

text \<open>
  Claim C3. A colon timecode whose fields are integers gives \<open>h*3600 + m*60 + s + f/30.0\<close>
  with four fields, \<open>h*3600 + m*60 + s\<close> with three, and 0 with any other number of
  fields. With three fields and with another number of fields it is so for all
  integers; with four fields it is so when the integers and the sum are in the range
  of the doubles (the value is the exact one, which the program rounds to a double).
\<close>

theorem parse_timecode_colon_fields:
  assumes "CHR '':'' \<in> set (strip s)"
    and "map py_int (split (CHR '':'') (strip s)) = map Some ints"
  shows "(ints = [h, m, sec, f]
            \<and> \<bar>f\<bar> < overflow_bound \<and> \<bar>h * 3600 + m * 60 + sec\<bar> < overflow_bound
            \<and> \<bar>real_of_int (h * 3600 + m * 60 + sec) + real_of_int f / 30\<bar>
                < real_of_int overflow_bound \<longrightarrow>
          parse_timecode s
            = Inr (PyFloat (Finite (real_of_int (h * 3600 + m * 60 + sec)
                                    + real_of_int f / 30))))
       \<and> (ints = [h, m, sec] \<longrightarrow> parse_timecode s = Inr (PyInt (h * 3600 + m * 60 + sec)))
       \<and> (length ints \<noteq> 3 \<and> length ints \<noteq> 4 \<longrightarrow> parse_timecode s = Inr (PyInt 0))"
proof (intro conjI impI)
  assume a: "ints = [h, m, sec, f]
            \<and> \<bar>f\<bar> < overflow_bound \<and> \<bar>h * 3600 + m * 60 + sec\<bar> < overflow_bound
            \<and> \<bar>real_of_int (h * 3600 + m * 60 + sec) + real_of_int f / 30\<bar>
                < real_of_int overflow_bound"
  with assms have "parse_timecode s
       = (case int_div_30 f of
            Inl e \<Rightarrow> Inl e
          | Inr q \<Rightarrow> int_add_float (h * 3600 + m * 60 + sec) q)"
    by (intro parse_timecode_four) simp_all
  also have "\<dots> = Inr (PyFloat (Finite (real_of_int (h * 3600 + m * 60 + sec)
                                    + real_of_int f / 30)))"
  proof -
    let ?n = "h * 3600 + m * 60 + sec"
    from a have "\<not> overflow_bound \<le> \<bar>f\<bar>" "\<not> overflow_bound \<le> \<bar>?n\<bar>"
      by simp_all
    then have c: "int_div_30 f = Inr (Finite (real_of_int f / 30))"
      "float_of_int ?n = Inr (Finite (real_of_int ?n))"
      by (simp_all only: int_div_30_def float_of_int_def if_False sum.case pyfloat.case)
    from a have "float_of_real (real_of_int ?n + real_of_int f / 30)
                   = Finite (real_of_int ?n + real_of_int f / 30)"
      unfolding float_of_real_def by (auto simp only: abs_less_iff split: if_splits)
    with c show ?thesis
      by (simp only: int_add_float_def sum.case float_add.simps)
  qed
  finally show "parse_timecode s
            = Inr (PyFloat (Finite (real_of_int (h * 3600 + m * 60 + sec)
                                    + real_of_int f / 30)))" .
next
  assume "ints = [h, m, sec]"
  with assms show "parse_timecode s = Inr (PyInt (h * 3600 + m * 60 + sec))"
    by (intro parse_timecode_three) simp_all
next
  assume a: "length ints \<noteq> 3 \<and> length ints \<noteq> 4"
  from assms(2) have "length (map py_int (split (CHR '':'') (strip s))) = length ints"
    by simp
  then have "length (split (CHR '':'') (strip s)) = length ints"
    by simp
  with a assms(1) show "parse_timecode s = Inr (PyInt 0)"
    by (simp add: parse_timecode_other_count)
qed


theorem parse_timecode_colon_fields_witness:
  "CHR '':'' \<in> set (strip '' 01:02:03:15 '')
   \<and> map py_int (split (CHR '':'') (strip '' 01:02:03:15 '')) = map Some [1, 2, 3, 15]
   \<and> \<bar>15\<bar> < overflow_bound \<and> \<bar>1 * 3600 + 2 * 60 + 3\<bar> < overflow_bound
   \<and> parse_timecode '' 01:02:03:15 ''
       = Inr (PyFloat (Finite (real_of_int (1 * 3600 + 2 * 60 + 3) + real_of_int 15 / 30)))"
proof -
  have a: "CHR '':'' \<in> set (strip '' 01:02:03:15 '')"
    by (simp add: strip_def isspace_def)
  have b: "map py_int (split (CHR '':'') (strip '' 01:02:03:15 '')) = map Some [1, 2, 3, 15]"
    by (simp add: strip_def isspace_def py_int_def num_strip_def num_space_def
          is_digit_def digit_val_def)
  have c: "\<bar>15\<bar> < overflow_bound" "\<bar>1 * 3600 + 2 * 60 + 3\<bar> < overflow_bound"
    "\<bar>real_of_int (1 * 3600 + 2 * 60 + 3) + real_of_int 15 / 30\<bar> < real_of_int overflow_bound"
    by (simp_all add: overflow_bound_def)
  have "parse_timecode '' 01:02:03:15 ''
       = Inr (PyFloat (Finite (real_of_int (1 * 3600 + 2 * 60 + 3) + real_of_int 15 / 30)))"
    by (rule parse_timecode_colon_fields
               [where h = 1 and m = 2 and sec = 3 and f = 15, OF a b, THEN conjunct1, THEN mp])
       (simp add: overflow_bound_def)
  with a b c show ?thesis
    by blast
qed

text \<open>
  Claim C3, as stated, for every integer: the fields of \<open>0:0:0:2000...0\<close> (the last
  of 309 digits) are integers, the last beyond the doubles; \<open>frames / 30.0\<close> raises
  OverflowError, which the handler for ValueError and TypeError does not catch.
\<close>

theorem parse_timecode_frames_overflow:
  "parse_timecode ''0:0:0:200000000000000000000000000000000000000000000000000000000000000000000000000000000000000000000000000000000000000000000000000000000000000000000000000000000000000000000000000000000000000000000000000000000000000000000000000000000000000000000000000000000000000000000000000000000000000000000000000000000000000000000'' = Inl OverflowError"
  by (simp add: parse_evals number_evals)

section \<open>The order of the numbers\<close>

lemma float_lt_trans: "float_lt x y \<Longrightarrow> float_lt y z \<Longrightarrow> float_lt x z"
  by (cases x; cases y; cases z; simp)

lemma float_lt_eq_trans: "float_lt x y \<Longrightarrow> float_eq y z \<Longrightarrow> float_lt x z"
  by (cases x; cases y; cases z; simp)

lemma float_eq_lt_trans: "float_eq x y \<Longrightarrow> float_lt y z \<Longrightarrow> float_lt x z"
  by (cases x; cases y; cases z; simp)

lemma float_eq_trans: "float_eq x y \<Longrightarrow> float_eq y z \<Longrightarrow> float_eq x z"
  by (cases x; cases y; cases z; simp)

lemma float_total: "x \<noteq> NaN \<Longrightarrow> y \<noteq> NaN \<Longrightarrow> float_lt x y \<or> float_eq x y \<or> float_lt y x"
  by (cases x; cases y; auto)

lemma num_ge_not_NaN: "num_ge a b \<Longrightarrow> cmp_val a \<noteq> NaN"
  by (cases "cmp_val a"; cases "cmp_val b"; simp add: num_ge_def num_lt_def num_eq_def)

section \<open>The segments built from the rows\<close>

lemma build_segments_invariant:
  assumes "build_segments spk st en src i rows segs = Inr out"
    and "\<forall>s \<in> set segs. seg_id s < i \<and> num_ge (start_time s) (PyInt 0)
                           \<and> num_gt (end_time s) (start_time s)"
    and "sorted_wrt (\<lambda>a b. seg_id a < seg_id b) segs"
  shows "(\<forall>s \<in> set out. seg_id s < i + length rows \<and> num_ge (start_time s) (PyInt 0)
                           \<and> num_gt (end_time s) (start_time s))
         \<and> sorted_wrt (\<lambda>a b. seg_id a < seg_id b) out"
  using assms
proof (induction rows arbitrary: i segs)
  case Nil
  then show ?case by simp
next
  case (Cons row rows)
  show ?case
  proof (cases "\<exists>start end sf ef d.
      parse_timecode (row st) = Inr start \<and> parse_timecode (row en) = Inr end
      \<and> num_ge start (PyInt 0) \<and> num_gt end start
      \<and> format_timecode start = Inr sf \<and> format_timecode end = Inr ef
      \<and> num_sub end start = Inr d")
    case True
    then obtain start "end" sf ef d where r:
      "parse_timecode (row st) = Inr start" "parse_timecode (row en) = Inr end"
      "num_ge start (PyInt 0)" "num_gt end start"
      "format_timecode start = Inr sf" "format_timecode end = Inr ef"
      "num_sub end start = Inr d"
      by blast
    let ?seg = "\<lparr>seg_id = i, speaker = row spk, start_time = start, end_time = end,
                  start_time_formatted = sf, end_time_formatted = ef,
                  seg_text = row src, duration = d\<rparr>"
    from Cons.prems(1) r
    have b: "build_segments spk st en src (Suc i) rows (segs @ [?seg]) = Inr out"
      by simp
    have p: "\<forall>s \<in> set (segs @ [?seg]). seg_id s < Suc i \<and> num_ge (start_time s) (PyInt 0)
                           \<and> num_gt (end_time s) (start_time s)"
      using Cons.prems(2) r by (auto simp: less_Suc_eq)
    have q: "sorted_wrt (\<lambda>a b. seg_id a < seg_id b) (segs @ [?seg])"
      using Cons.prems(2,3) by (simp add: sorted_wrt_append)
    from Cons.IH [OF b p q] show ?thesis
      by simp
  next
    case False
    with Cons.prems(1)
    have b: "build_segments spk st en src (Suc i) rows segs = Inr out"
      by (auto split: sum.splits if_splits)
    have p: "\<forall>s \<in> set segs. seg_id s < Suc i \<and> num_ge (start_time s) (PyInt 0)
                           \<and> num_gt (end_time s) (start_time s)"
      using Cons.prems(2) by (auto simp: less_Suc_eq)
    from Cons.IH [OF b p Cons.prems(3)] show ?thesis
      by simp
  qed
qed

section \<open>The sort\<close>

lemma set_insort_start: "set (insort_start x ys) = insert x (set ys)"
  by (induction ys) auto

lemma set_sort_start: "set (sort_start segs) = set segs"
  by (induction segs) (simp_all add: sort_start_def set_insort_start)

lemma sort_start_Cons: "sort_start (x # xs) = insort_start x (sort_start xs)"
  by (simp add: sort_start_def)

lemma sorted_insort_start:
  assumes "sorted_wrt (\<lambda>a b. num_lt (start_time a) (start_time b)
              \<or> (num_eq (start_time a) (start_time b) \<and> seg_id a < seg_id b)) ys"
    and "\<forall>y \<in> set ys. seg_id x < seg_id y"
    and "cmp_val (start_time x) \<noteq> NaN"
    and "\<forall>y \<in> set ys. cmp_val (start_time y) \<noteq> NaN"
  shows "sorted_wrt (\<lambda>a b. num_lt (start_time a) (start_time b)
              \<or> (num_eq (start_time a) (start_time b) \<and> seg_id a < seg_id b))
           (insort_start x ys)"
  using assms
proof (induction ys)
  case Nil
  then show ?case by simp
next
  case (Cons y ys)
  show ?case
  proof (cases "num_lt (start_time y) (start_time x)")
    case True
    with Cons show ?thesis
      by (auto simp: set_insort_start)
  next
    case False
    with Cons.prems(3,4)
    have xy: "num_lt (start_time x) (start_time y) \<or> num_eq (start_time x) (start_time y)"
      using float_total [of "cmp_val (start_time x)" "cmp_val (start_time y)"]
      by (auto simp: num_lt_def num_eq_def)
    have "num_lt (start_time x) (start_time z)
            \<or> (num_eq (start_time x) (start_time z) \<and> seg_id x < seg_id z)"
      if z: "z \<in> set ys" for z
    proof -
      from Cons.prems(1) z
      have yz: "num_lt (start_time y) (start_time z) \<or> num_eq (start_time y) (start_time z)"
        by auto
      from Cons.prems(2) z have "seg_id x < seg_id z"
        by simp
      with xy yz show ?thesis
        unfolding num_lt_def num_eq_def
        by (meson float_lt_trans float_lt_eq_trans float_eq_lt_trans float_eq_trans)
    qed
    with False xy Cons.prems(1,2) show ?thesis
      by auto
  qed
qed

lemma sorted_sort_start:
  assumes "sorted_wrt (\<lambda>a b. seg_id a < seg_id b) segs"
    and "\<forall>s \<in> set segs. cmp_val (start_time s) \<noteq> NaN"
  shows "sorted_wrt (\<lambda>a b. num_lt (start_time a) (start_time b)
              \<or> (num_eq (start_time a) (start_time b) \<and> seg_id a < seg_id b))
           (sort_start segs)"
  using assms
proof (induction segs)
  case Nil
  then show ?case by (simp add: sort_start_def)
next
  case (Cons x xs)
  then show ?case
    by (simp add: sort_start_Cons sorted_insort_start set_sort_start)
qed

lemma upload_csv_segments:
  assumes "upload_csv header rows = Inr r"
  shows "\<exists>spk st en src segs.
           build_segments spk st en src 0 rows [] = Inr segs \<and> segments r = sort_start segs"
proof -
  from assms obtain spk st en src segs where
    "build_segments spk st en src 0 rows [] = Inr segs"
    "r = \<lparr>segments = sort_start segs, speakers = set (map speaker segs),
          total_duration = (case map end_time (sort_start segs) of
                              [] \<Rightarrow> PyInt 0
                            | x # xs \<Rightarrow> py_max x xs)\<rparr>"
    by (auto simp: upload_csv_def Let_def split: if_splits option.splits sum.splits)
  then show ?thesis
    by (intro exI [of _ spk] exI [of _ st] exI [of _ en] exI [of _ src] exI [of _ segs]) simp
qed

lemma upload_csv_segments_filter:
  assumes "upload_csv header rows = Inr r"
  shows "\<forall>s \<in> set (segments r). seg_id s < length rows \<and> num_ge (start_time s) (PyInt 0)
                                  \<and> num_gt (end_time s) (start_time s)"
proof -
  from upload_csv_segments [OF assms] obtain spk st en src segs where
    b: "build_segments spk st en src 0 rows [] = Inr segs" and s: "segments r = sort_start segs"
    by blast
  from build_segments_invariant [OF b] show ?thesis
    by (simp add: s set_sort_start)
qed

lemmas float_evals =
  py_float_def decimal_def exponent_def is_e_def digits_val_def num_strip_def num_space_def
  is_digit_def digit_val_def lower_def lower_char_def char_evals float_of_real_def
  overflow_bound_def

lemma parse_timecode_examples:
  "parse_timecode ''0'' = Inr (PyFloat (Finite 0))"
  "parse_timecode ''1'' = Inr (PyFloat (Finite 1))"
  "parse_timecode ''2'' = Inr (PyFloat (Finite 2))"
  "parse_timecode ''3'' = Inr (PyFloat (Finite 3))"
  "parse_timecode ''inf'' = Inr (PyFloat PosInf)"
  by (simp_all add: parse_evals float_evals)

lemma format_timecode_examples:
  "format_timecode (PyFloat (Finite 0)) = Inr ''00:00:00.000''"
  "format_timecode (PyFloat (Finite 1)) = Inr ''00:00:01.000''"
  "format_timecode (PyFloat (Finite 2)) = Inr ''00:00:02.000''"
  "format_timecode (PyFloat (Finite 3)) = Inr ''00:00:03.000''"
  by (simp_all add: format_timecode_float format_evals)

lemma example_columns:
  "find_required_columns (map strip [''speaker'', ''start_time'', ''end_time'', ''text''])
     no_columns
   = \<lparr>speaker_col = Some ''speaker'', start_time_col = Some ''start_time'',
      end_time_col = Some ''end_time''\<rparr>"
  "find_source_column (map strip [''speaker'', ''start_time'', ''end_time'', ''text''])
   = Some ''text''"
  by (simp_all add: column_evals no_columns_def)

lemma upload_csv_resolved:
  assumes "find_required_columns (map strip header) no_columns
             = \<lparr>speaker_col = Some spk, start_time_col = Some st, end_time_col = Some en\<rparr>"
    and "find_source_column (map strip header) = Some src"
    and "spk \<noteq> []" "st \<noteq> []" "en \<noteq> []" "src \<noteq> []"
  shows "upload_csv header rows
           = (case build_segments spk st en src 0 rows [] of
                Inl e \<Rightarrow> Inl (Error_processing_CSV e)
              | Inr segs \<Rightarrow>
                  Inr \<lparr>segments = sort_start segs,
                       speakers = set (map speaker segs),
                       total_duration =
                         (case map end_time (sort_start segs) of
                            [] \<Rightarrow> PyInt 0
                          | x # xs \<Rightarrow> py_max x xs)\<rparr>)"
  using assms by (simp add: upload_csv_def Let_def falsy_def)

lemma example_upload:
  "upload_csv [''speaker'', ''start_time'', ''end_time'', ''text''] rows
     = (case build_segments ''speaker'' ''start_time'' ''end_time'' ''text'' 0 rows [] of
          Inl e \<Rightarrow> Inl (Error_processing_CSV e)
        | Inr segs \<Rightarrow>
            Inr \<lparr>segments = sort_start segs,
                 speakers = set (map speaker segs),
                 total_duration =
                   (case map end_time (sort_start segs) of
                      [] \<Rightarrow> PyInt 0
                    | x # xs \<Rightarrow> py_max x xs)\<rparr>)"
  by (rule upload_csv_resolved [OF example_columns]) simp_all

section \<open>The segment builder\<close>

text \<open>
  Claim C5. The segments returned are in ascending order of \<open>start_time\<close>, and
  segments with equal \<open>start_time\<close> are in the order of their rows (\<open>seg_id\<close> is the
  index of the row): of two segments of the answer, the earlier one has the smaller
  \<open>start_time\<close>, or an equal \<open>start_time\<close> and the smaller row index.
\<close>

theorem segments_sorted_stable:
  assumes "upload_csv header rows = Inr r"
  shows "sorted_wrt (\<lambda>a b. num_lt (start_time a) (start_time b)
              \<or> (num_eq (start_time a) (start_time b) \<and> seg_id a < seg_id b))
           (segments r)"
proof -
  from upload_csv_segments [OF assms] obtain spk st en src segs where
    b: "build_segments spk st en src 0 rows [] = Inr segs" and s: "segments r = sort_start segs"
    by blast
  from build_segments_invariant [OF b]
  have i: "\<forall>s \<in> set segs. num_ge (start_time s) (PyInt 0)"
    and o: "sorted_wrt (\<lambda>a b. seg_id a < seg_id b) segs"
    by simp_all
  from i have "\<forall>s \<in> set segs. cmp_val (start_time s) \<noteq> NaN"
    by (blast dest: num_ge_not_NaN)
  with o show ?thesis
    unfolding s by (rule sorted_sort_start)
qed

theorem segments_sorted_stable_witness:
  "\<exists>r. upload_csv [''speaker'', ''start_time'', ''end_time'', ''text'']
          [\<lambda>col. if col = ''start_time'' then ''2'' else if col = ''end_time'' then ''3'' else ''A'',
           \<lambda>col. if col = ''start_time'' then ''1'' else if col = ''end_time'' then ''3'' else ''B'',
           \<lambda>col. if col = ''start_time'' then ''1'' else if col = ''end_time'' then ''2'' else ''C'']
        = Inr r
      \<and> map seg_id (segments r) = [1, 2, 0]
      \<and> sorted_wrt (\<lambda>a b. num_lt (start_time a) (start_time b)
              \<or> (num_eq (start_time a) (start_time b) \<and> seg_id a < seg_id b))
           (segments r)"
proof -
  let ?rows = "[\<lambda>col. if col = ''start_time'' then ''2'' else if col = ''end_time'' then ''3'' else ''A'',
           \<lambda>col. if col = ''start_time'' then ''1'' else if col = ''end_time'' then ''3'' else ''B'',
           \<lambda>col. if col = ''start_time'' then ''1'' else if col = ''end_time'' then ''2'' else ''C'']
           :: row list"
  let ?s0 = "\<lparr>seg_id = 0, speaker = ''A'', start_time = PyFloat (Finite 2),
              end_time = PyFloat (Finite 3), start_time_formatted = ''00:00:02.000'',
              end_time_formatted = ''00:00:03.000'', seg_text = ''A'',
              duration = PyFloat (Finite 1)\<rparr>"
  let ?s1 = "\<lparr>seg_id = 1, speaker = ''B'', start_time = PyFloat (Finite 1),
              end_time = PyFloat (Finite 3), start_time_formatted = ''00:00:01.000'',
              end_time_formatted = ''00:00:03.000'', seg_text = ''B'',
              duration = PyFloat (Finite 2)\<rparr>"
  let ?s2 = "\<lparr>seg_id = 2, speaker = ''C'', start_time = PyFloat (Finite 1),
              end_time = PyFloat (Finite 2), start_time_formatted = ''00:00:01.000'',
              end_time_formatted = ''00:00:02.000'', seg_text = ''C'',
              duration = PyFloat (Finite 1)\<rparr>"
  let ?r = "\<lparr>segments = sort_start [?s0, ?s1, ?s2],
             speakers = set (map speaker [?s0, ?s1, ?s2]),
             total_duration = (case map end_time (sort_start [?s0, ?s1, ?s2]) of
                                 [] \<Rightarrow> PyInt 0
                               | x # xs \<Rightarrow> py_max x xs)\<rparr>"
  have b: "build_segments ''speaker'' ''start_time'' ''end_time'' ''text'' 0 ?rows []
             = Inr [?s0, ?s1, ?s2]"
    by (simp add: parse_timecode_examples format_timecode_examples number_evals float_sub_def)
  have u: "upload_csv [''speaker'', ''start_time'', ''end_time'', ''text''] ?rows = Inr ?r"
    by (simp only: example_upload b sum.case)
  have m: "map seg_id (segments ?r) = [1, 2, 0]"
    by (simp add: sort_start_def num_lt_def)
  note t = segments_sorted_stable [OF u]
  show ?thesis
    by (rule exI [of _ ?r]) (intro conjI u m t)
qed

text \<open>
  Claim C4. A row is kept as a segment if and only if its \<open>start_time\<close> is at least 0
  and its \<open>end_time\<close> is greater. The row with the cells \<open>0\<close> and \<open>inf\<close> passes the
  test; \<open>format_timecode\<close> of the infinite \<open>end_time\<close> then raises ValueError, outside
  the handler of the row, and the upload as a whole is answered with the error.
\<close>

theorem upload_csv_infinite_end_time:
  "parse_timecode ''0'' = Inr (PyFloat (Finite 0))
   \<and> parse_timecode ''inf'' = Inr (PyFloat PosInf)
   \<and> num_ge (PyFloat (Finite 0)) (PyInt 0)
   \<and> num_gt (PyFloat PosInf) (PyFloat (Finite 0))
   \<and> upload_csv [''speaker'', ''start_time'', ''end_time'', ''text'']
        [\<lambda>col. if col = ''start_time'' then ''0'' else if col = ''end_time'' then ''inf''
               else ''A'']
      = Inl (Error_processing_CSV ValueError)"
proof -
  have "build_segments ''speaker'' ''start_time'' ''end_time'' ''text'' 0
          [\<lambda>col. if col = ''start_time'' then ''0'' else if col = ''end_time'' then ''inf''
                 else ''A''] []
        = Inl ValueError"
    by (simp add: parse_timecode_examples format_timecode_examples format_timecode_special
          number_evals)
  then have "upload_csv [''speaker'', ''start_time'', ''end_time'', ''text'']
        [\<lambda>col. if col = ''start_time'' then ''0'' else if col = ''end_time'' then ''inf''
               else ''A'']
      = Inl (Error_processing_CSV ValueError)"
    by (simp only: example_upload sum.case)
  then show ?thesis
    by (simp add: parse_timecode_examples number_evals)
qed

end
